theory Spec2Isabelle
  imports Main
begin

section \<open>JavaScript strings and values\<close>

text \<open>
  A JavaScript string is modelled as a \<open>string\<close> (a list of characters). An Isabelle
  character has 8 bits, so the model covers the strings whose code units are below 256;
  every character the program itself tests for (\<open>/\<close>, \<open>?\<close>, the hexadecimal digits,
  the prefixes \<open>http\<close> and \<open>/estadistiques/\<close>) is in that range.
\<close>

text \<open>\<open>s.split(sep)\<close> for a one-character separator: never the empty array.\<close>

fun split_js :: "char \<Rightarrow> string \<Rightarrow> string list" where
  "split_js sep [] = [[]]"
| "split_js sep (c # cs) =
     (if c = sep then [] # split_js sep cs
      else (case split_js sep cs of
              [] \<Rightarrow> [[c]]
            | p # ps \<Rightarrow> (c # p) # ps))"

text \<open>\<open>s.startsWith(p)\<close> and \<open>s.includes(t)\<close>.\<close>

definition startsWith :: "string \<Rightarrow> string \<Rightarrow> bool" where
  "startsWith s p = (take (length p) s = p)"

fun includes_js :: "string \<Rightarrow> string \<Rightarrow> bool" where
  "includes_js [] t = (t = [])"
| "includes_js (c # cs) t = (startsWith (c # cs) t \<or> includes_js cs t)"

text \<open>
  \<open>s.trim()\<close> removes white space at both ends. Of JavaScript's white space and line
  terminators, the code units below 256 are tab, line feed, vertical tab, form feed,
  carriage return, space and the no-break space.
\<close>

definition is_ws :: "char \<Rightarrow> bool" where
  "is_ws c = (of_char c \<in> {9, 10, 11, 12, 13, 32, 160 :: nat})"

definition trim :: "string \<Rightarrow> string" where
  "trim s = rev (dropWhile is_ws (rev (dropWhile is_ws s)))"

text \<open>Decimal text of a number, as \<open>String(n)\<close> and a template literal give it.\<close>

definition digit_char :: "nat \<Rightarrow> char" where
  "digit_char d = char_of (48 + d)"

fun string_of_nat :: "nat \<Rightarrow> string" where
  "string_of_nat n =
     (if n < 10 then [digit_char n]
      else string_of_nat (n div 10) @ [digit_char (n mod 10)])"

declare string_of_nat.simps [simp del]

definition string_of_int :: "int \<Rightarrow> string" where
  "string_of_int i = (if i < 0 then CHR ''-'' # string_of_nat (nat (- i)) else string_of_nat (nat i))"

text \<open>
  A JavaScript value as \<open>JSON.parse\<close> and property reads produce it. An object is the
  list of its own properties, the first entry for a key being the property. Of the numbers,
  the model has the safe integers only: \<open>JNum n\<close> stands for the number \<open>n\<close> when
  the magnitude of \<open>n\<close> is below 2 to the power 53 (the payloads' rounds, scores and status
  codes). JavaScript numbers are doubles: a fraction, \<open>NaN\<close> and the infinities have no
  value here, and an integer of larger magnitude is not what the program would hold (it is
  rounded to a double when parsed) nor printed as here (\<open>String\<close> gives the shortest
  digits that read back as the same double, and the exponent form \<open>1e+21\<close> from
  10 to the power 21 on). What is stated below about a payload is stated for payloads whose
  numbers are safe integers.
\<close>

datatype jsvalue =
    JUndefined
  | JNull
  | JBool bool
  | JNum int
  | JStr string
  | JArr "jsvalue list"
  | JObj "(string \<times> jsvalue) list"

text \<open>A thrown value: every value the program throws or catches is an \<open>Error\<close> with a message.\<close>

datatype js_error = Error string | TypeError string

fun message :: "js_error \<Rightarrow> string" where
  "message (Error m) = m"
| "message (TypeError m) = m"

text \<open>Truthiness, as \<open>if (v)\<close>, \<open>v && ...\<close> and \<open>!v\<close> test it.\<close>

fun truthy :: "jsvalue \<Rightarrow> bool" where
  "truthy JUndefined = False"
| "truthy JNull = False"
| "truthy (JBool b) = b"
| "truthy (JNum n) = (n \<noteq> 0)"
| "truthy (JStr s) = (s \<noteq> [])"
| "truthy (JArr xs) = True"
| "truthy (JObj kvs) = True"

text \<open>
  \<open>v.key\<close> for the property names the program reads (\<open>jornada\<close>, \<open>match\<close>,
  \<open>teams\<close>, \<open>data\<close>, \<open>score\<close>, \<open>resultatLocal\<close>, \<open>resultatVisitant\<close>,
  \<open>status\<close>, \<open>http_code\<close>, \<open>contents\<close>): an object gives its own property, any
  other value gives \<open>undefined\<close>. (On a string, \<open>match\<close> is the built-in method,
  whose properties read by the program are all \<open>undefined\<close>; the guarded reads
  \<open>v.match && v.match.k\<close> give the same result as with \<open>undefined\<close>.)
  The program never reads a property of \<open>null\<close> or \<open>undefined\<close> without a guard,
  so the read is total here; \<open>optprop\<close> is the optional chaining \<open>v?.key\<close>.
\<close>

fun getprop :: "jsvalue \<Rightarrow> string \<Rightarrow> jsvalue" where
  "getprop (JObj kvs) k = (case map_of kvs k of None \<Rightarrow> JUndefined | Some v \<Rightarrow> v)"
| "getprop v k = JUndefined"

definition optprop :: "jsvalue \<Rightarrow> string \<Rightarrow> jsvalue" where
  "optprop v k = (if v = JNull \<or> v = JUndefined then JUndefined else getprop v k)"

text \<open>\<open>v[i]\<close> for an index: an array element, a character of a string, the property
  named by the index's decimal text of an object.\<close>

fun getindex :: "jsvalue \<Rightarrow> nat \<Rightarrow> jsvalue" where
  "getindex (JArr xs) i = (if i < length xs then xs ! i else JUndefined)"
| "getindex (JStr s) i = (if i < length s then JStr [s ! i] else JUndefined)"
| "getindex (JObj kvs) i = getprop (JObj kvs) (string_of_nat i)"
| "getindex v i = JUndefined"

text \<open>The sum type as the result of a computation that may throw.\<close>

definition bind_e :: "'e + 'a \<Rightarrow> ('a \<Rightarrow> 'e + 'b) \<Rightarrow> 'e + 'b" where
  "bind_e m f = (case m of Inl e \<Rightarrow> Inl e | Inr x \<Rightarrow> f x)"

text \<open>\<open>Array.prototype.join\<close> on the texts of the elements; the first element that
  throws decides.\<close>

fun join_js :: "(js_error + string) list \<Rightarrow> js_error + string" where
  "join_js [] = Inr []"
| "join_js [r] = r"
| "join_js (r # rs) =
     bind_e r (\<lambda>s. bind_e (join_js rs) (\<lambda>t. Inr (s @ '','' @ t)))"

text \<open>
  \<open>String(v)\<close>, also the conversion a template literal applies. A number, a safe
  integer, gives its decimal digits, with a minus sign when negative. An array joins the
  texts of its elements with commas, \<open>null\<close> and \<open>undefined\<close> elements giving the empty
  text. A plain object gives \<open>[object Object]\<close> through the inherited \<open>toString\<close>;
  an object with an own property \<open>toString\<close> (never callable in parsed JSON) has no
  primitive value and the conversion throws a \<open>TypeError\<close>.
\<close>

fun toStringJS :: "jsvalue \<Rightarrow> js_error + string" where
  "toStringJS JUndefined = Inr ''undefined''"
| "toStringJS JNull = Inr ''null''"
| "toStringJS (JBool b) = Inr (if b then ''true'' else ''false'')"
| "toStringJS (JNum n) = Inr (string_of_int n)"
| "toStringJS (JStr s) = Inr s"
| "toStringJS (JArr xs) =
     join_js (map (\<lambda>x. if x = JNull \<or> x = JUndefined then Inr [] else toStringJS x) xs)"
| "toStringJS (JObj kvs) =
     (if ''toString'' \<in> set (map fst kvs)
      then Inl (TypeError ''Cannot convert object to primitive value'')
      else Inr ''[object Object]'')"

section \<open>types.ts\<close>

datatype ScrapeStatus = IDLE | QUEUED | FETCHING_HTML | DOWNLOADING_JSON | COMPLETED | ERROR

record MatchJob =
  job_id :: string
  job_url :: string
  status :: ScrapeStatus
  statsFileDownloaded :: bool
  movesFileDownloaded :: bool
  job_error :: "string option"
  matchTitle :: "string option"

definition BASE_URL :: string where
  "BASE_URL = ''https://www.basquetcatala.cat''"

definition is_hex_digit :: "char \<Rightarrow> bool" where
  "is_hex_digit c = (c \<in> set ''0123456789abcdefABCDEF'')"

text \<open>The test \<open>/^[0-9a-fA-F]{24}$/\<close>.\<close>

definition hex24 :: "string \<Rightarrow> bool" where
  "hex24 s = (length s = 24 \<and> list_all is_hex_digit s)"

text \<open>\<open>parts[parts.length - 1]\<close> is \<open>undefined\<close> for the empty array, and the
  guard \<open>potentialId && ...\<close> then gives \<open>null\<close>.\<close>

definition extractMatchId :: "string \<Rightarrow> string option" where
  "extractMatchId url =
     (let parts = filter (\<lambda>p. length p > 0) (split_js CHR ''/'' url)
      in if parts = [] then None
         else (let potentialId = last parts
               in if potentialId \<noteq> [] \<and> hex24 potentialId then Some potentialId else None))"

section \<open>The environment of the program\<close>

text \<open>
  What the program takes from the browser and the network is a parameter of the model:
  the outcome of each \<open>fetch\<close> (indexed by the number of requests issued before it, so
  that the same address may answer differently at different times), the clock, the
  built-ins \<open>JSON.parse\<close> and \<open>encodeURIComponent\<close>, the anchors that the HTML parser
  and \<open>querySelectorAll('a')\<close> find in a page (the \<open>href\<close> attribute of each, in
  document order, \<open>None\<close> where the attribute is missing), and the compression step
  \<open>zip.generateAsync\<close> of the archive library.
\<close>

record response =
  ok :: bool
  resp_status :: nat
  resp_text :: "js_error + string"
  resp_json :: "js_error + jsvalue"

datatype fetch_result = Rejected js_error | Responded response

type_synonym zipfile = "string \<times> jsvalue"

record env =
  net :: "nat \<Rightarrow> string \<Rightarrow> fetch_result"
  date_now :: "nat \<Rightarrow> nat"
  iso_now :: string
  json_parse :: "string \<Rightarrow> js_error + jsvalue"
  encodeURIComponent :: "string \<Rightarrow> string"
  anchors_of :: "string \<Rightarrow> string option list"
  zip_generate :: "zipfile list \<Rightarrow> js_error + unit"

text \<open>
  The effects of the program, in the order they happen: requests, pacing delays (in
  milliseconds), updates of the job list (the list after the update), status messages and
  the download handed to the browser (archive name and the documents put into it).
\<close>

datatype event =
    EvFetch string
  | EvDelay nat
  | EvSetJobs "MatchJob list"
  | EvStatus string
  | EvDownload string "zipfile list"

record world =
  nfetch :: nat
  events :: "event list"
  console :: "string list"
  jobs :: "MatchJob list"
  statusMessage :: string
  isProcessing :: bool

definition emit :: "event \<Rightarrow> world \<Rightarrow> world" where
  "emit e w = w\<lparr>events := events w @ [e]\<rparr>"

definition log :: "string \<Rightarrow> world \<Rightarrow> world" where
  "log line w = w\<lparr>console := console w @ [line]\<rparr>"

definition delay :: "nat \<Rightarrow> world \<Rightarrow> world" where
  "delay ms w = emit (EvDelay ms) w"

section \<open>services/scraperService.ts\<close>

text \<open>
  \<open>downloadAsZip\<close>: every failure inside the \<open>try\<close> block is caught, written to the
  console, and turned into the result \<open>false\<close>. The documents are recorded as they are
  handed over; their serialisation by \<open>JSON.stringify\<close> is the library's.
\<close>

definition downloadAsZip :: "env \<Rightarrow> zipfile list \<Rightarrow> string \<Rightarrow> world \<Rightarrow> bool \<times> world" where
  "downloadAsZip env files zipFilename w =
     (case zip_generate env files of
        Inr content \<Rightarrow> (True, emit (EvDownload zipFilename files) w)
      | Inl e \<Rightarrow> (False, log ''ZIP Generation failed'' w))"

record provider =
  pname :: string
  getUrl :: "string \<Rightarrow> string"
  isWrapped :: bool

definition PROXY_PROVIDERS :: "env \<Rightarrow> provider list" where
  "PROXY_PROVIDERS env =
     [\<lparr>pname = ''allorigins-wrapped'',
       getUrl = (\<lambda>target. ''https://api.allorigins.win/get?url='' @ encodeURIComponent env target),
       isWrapped = True\<rparr>,
      \<lparr>pname = ''codetabs'',
       getUrl = (\<lambda>target. ''https://api.codetabs.com/v1/proxy?quest='' @ encodeURIComponent env target),
       isWrapped = False\<rparr>,
      \<lparr>pname = ''corsproxy.io'',
       getUrl = (\<lambda>target. ''https://corsproxy.io/?'' @ encodeURIComponent env target),
       isWrapped = False\<rparr>]"

text \<open>
  The body of the \<open>try\<close> block of \<open>fetchTextWithFallback\<close> after the request has been
  answered: the status check, the unwrapping of a wrapped answer, the check for an empty
  body. \<open>text\<close> is a JavaScript value, since \<open>wrapperJson.contents\<close> may be anything:
  a falsy value is an empty body, and a truthy value that is no string has no \<open>trim\<close>
  method, so the call throws.
\<close>

definition decodeResponse :: "provider \<Rightarrow> response \<Rightarrow> js_error + string" where
  "decodeResponse provider r =
     (if \<not> ok r
      then Inl (Error (''Proxy '' @ pname provider @ '' returned status '' @ string_of_nat (resp_status r)))
      else bind_e
        (if isWrapped provider
         then bind_e (resp_json r) (\<lambda>wrapperJson.
                if truthy wrapperJson \<and> truthy (getprop wrapperJson ''status'')
                   \<and> getprop (getprop wrapperJson ''status'') ''http_code'' = JNum 200
                then Inr (getprop wrapperJson ''contents'')
                else bind_e (toStringJS (optprop (optprop wrapperJson ''status'') ''http_code''))
                       (\<lambda>code. Inl (Error (''Wrapped proxy returned error code: '' @ code))))
         else bind_e (resp_text r) (\<lambda>t. Inr (JStr t)))
        (\<lambda>text.
           if \<not> truthy text then Inl (Error ''Received empty response body'')
           else (case text of
                   JStr s \<Rightarrow>
                     if length (trim s) = 0 then Inl (Error ''Received empty response body'')
                     else Inr s
                 | _ \<Rightarrow> Inl (TypeError ''text.trim is not a function''))))"

text \<open>One pass of the loop body up to the \<open>catch\<close>: the request through one provider.\<close>

definition attempt :: "env \<Rightarrow> provider \<Rightarrow> string \<Rightarrow> world \<Rightarrow> (js_error + string) \<times> world" where
  "attempt env provider url w =
     (let proxyUrl = getUrl provider url;
          w1 = log (''Attempting fetch via '' @ pname provider @ ''...'') w;
          w2 = emit (EvFetch proxyUrl) (w1\<lparr>nfetch := Suc (nfetch w1)\<rparr>)
      in (case net env (nfetch w) proxyUrl of
            Rejected e \<Rightarrow> Inl e
          | Responded r \<Rightarrow> decodeResponse provider r,
          w2))"

fun providerLoop ::
  "env \<Rightarrow> string \<Rightarrow> provider list \<Rightarrow> js_error option \<Rightarrow> world \<Rightarrow> (js_error + string) \<times> world"
where
  "providerLoop env url [] lastError w =
     (Inl (case lastError of
             Some e \<Rightarrow> e
           | None \<Rightarrow> Error ''All proxies failed to retrieve data.''), w)"
| "providerLoop env url (provider # rest) lastError w =
     (case attempt env provider url w of
        (Inr text, w') \<Rightarrow> (Inr text, w')
      | (Inl error, w') \<Rightarrow>
          providerLoop env url rest (Some error)
            (delay 1000 (log (''Failed with '' @ pname provider @ '':'') w')))"

text \<open>The target address with the cache-defeating parameter, \<open>now\<close> being \<open>Date.now()\<close>.\<close>

definition urlWithCacheBuster :: "string \<Rightarrow> nat \<Rightarrow> string" where
  "urlWithCacheBuster targetUrl now =
     targetUrl @ (if includes_js targetUrl ''?'' then ''&'' else ''?'')
       @ ''__t='' @ string_of_nat now"

text \<open>The provider list is a parameter; the program passes \<open>PROXY_PROVIDERS\<close>.\<close>

definition fetchTextWithFallback ::
  "env \<Rightarrow> provider list \<Rightarrow> string \<Rightarrow> world \<Rightarrow> (js_error + string) \<times> world"
where
  "fetchTextWithFallback env providers targetUrl w =
     providerLoop env (urlWithCacheBuster targetUrl (date_now env (nfetch w))) providers None w"

text \<open>
  The extraction step of \<open>fetchResultsPage\<close>, on the \<open>href\<close> attributes of the page's
  anchors. A \<open>Set\<close> keeps its elements in insertion order; adding an element it has
  changes nothing.
\<close>

fun statsHrefs :: "string option list \<Rightarrow> string list" where
  "statsHrefs [] = []"
| "statsHrefs (None # hs) = statsHrefs hs"
| "statsHrefs (Some href # hs) =
     (if includes_js href ''/estadistiques/'' then href # statsHrefs hs else statsHrefs hs)"

definition normalizeHref :: "string \<Rightarrow> string" where
  "normalizeHref href =
     (if startsWith href ''http'' then href
      else BASE_URL @ (if startsWith href ''/'' then [] else ''/'') @ href)"

definition set_add :: "'a list \<Rightarrow> 'a \<Rightarrow> 'a list" where
  "set_add s x = (if x \<in> set s then s else s @ [x])"

definition new_Set :: "'a list \<Rightarrow> 'a list" where
  "new_Set xs = foldl set_add [] xs"

definition extractMatchLinks :: "string option list \<Rightarrow> string list" where
  "extractMatchLinks hrefs = new_Set (map normalizeHref (statsHrefs hrefs))"

definition fetchResultsPage :: "env \<Rightarrow> string \<Rightarrow> world \<Rightarrow> (js_error + string list) \<times> world" where
  "fetchResultsPage env pageUrl w =
     (case fetchTextWithFallback env (PROXY_PROVIDERS env) pageUrl w of
        (Inl error, w') \<Rightarrow> (Inl error, log ''Error scraping results page:'' w')
      | (Inr html, w') \<Rightarrow> (Inr (extractMatchLinks (anchors_of env html)), w'))"

datatype data_kind = Stats | Moves

fun kind_name :: "data_kind \<Rightarrow> string" where
  "kind_name Stats = ''stats''"
| "kind_name Moves = ''moves''"

definition API_BASE :: string where
  "API_BASE = ''https://msstats.optimalwayconsulting.com/v1/fcbq''"

fun endpoint :: "data_kind \<Rightarrow> string" where
  "endpoint Stats = ''getJsonWithMatchStats''"
| "endpoint Moves = ''getJsonWithMatchMoves''"

definition matchDataUrl :: "string \<Rightarrow> data_kind \<Rightarrow> string" where
  "matchDataUrl matchId kind =
     API_BASE @ ''/'' @ endpoint kind @ ''/'' @ matchId @ ''?currentSeason=true''"

definition fetchMatchData ::
  "env \<Rightarrow> string \<Rightarrow> data_kind \<Rightarrow> world \<Rightarrow> (js_error + jsvalue) \<times> world"
where
  "fetchMatchData env matchId kind w =
     (let targetUrl = matchDataUrl matchId kind;
          failed = ''Error fetching '' @ kind_name kind @ '' for '' @ matchId @ '':''
      in case fetchTextWithFallback env (PROXY_PROVIDERS env) targetUrl w of
           (Inl error, w') \<Rightarrow> (Inl error, log failed w')
         | (Inr jsonString, w') \<Rightarrow>
             (case json_parse env jsonString of
                Inr v \<Rightarrow> (Inr v, w')
              | Inl e \<Rightarrow>
                  (Inl (Error ''Invalid JSON response from server''),
                   log failed (log (''Failed to parse JSON for '' @ kind_name kind @ ''.'') w'))))"

section \<open>App.tsx\<close>

text \<open>
  The state setters of the component. Functional updates \<open>setJobs(prev => ...)\<close> are
  applied in the order they are issued, each to the result of the one before.
\<close>

definition setJobs :: "(MatchJob list \<Rightarrow> MatchJob list) \<Rightarrow> world \<Rightarrow> world" where
  "setJobs f w = emit (EvSetJobs (f (jobs w))) (w\<lparr>jobs := f (jobs w)\<rparr>)"

definition setStatusMessage :: "string \<Rightarrow> world \<Rightarrow> world" where
  "setStatusMessage m w = emit (EvStatus m) (w\<lparr>statusMessage := m\<rparr>)"

definition setIsProcessing :: "bool \<Rightarrow> world \<Rightarrow> world" where
  "setIsProcessing b w = w\<lparr>isProcessing := b\<rparr>"

text \<open>The \<open>catch\<close> block of \<open>processJob\<close>; every caught value is an \<open>Error\<close>.\<close>

definition processJob_catch :: "MatchJob \<Rightarrow> js_error \<Rightarrow> world \<Rightarrow> world" where
  "processJob_catch job error w =
     setJobs (map (\<lambda>j. if job_id j = job_id job
                        then j\<lparr>status := ERROR, job_error := Some (message error)\<rparr>
                        else j))
       (log (message error) w)"

definition processJob :: "env \<Rightarrow> MatchJob \<Rightarrow> world \<Rightarrow> (jsvalue \<times> jsvalue) option \<times> world" where
  "processJob env job w =
     (let w1 = setJobs (map (\<lambda>j. if job_id j = job_id job
                                  then j\<lparr>status := DOWNLOADING_JSON\<rparr> else j)) w
      in case fetchMatchData env (job_id job) Stats w1 of
           (Inl error, w2) \<Rightarrow> (None, processJob_catch job error w2)
         | (Inr statsData, w2) \<Rightarrow>
             (let w3 = setJobs (map (\<lambda>j. if job_id j = job_id job
                                         then j\<lparr>statsFileDownloaded := True\<rparr> else j)) w2;
                  w4 = delay 500 w3
              in case fetchMatchData env (job_id job) Moves w4 of
                   (Inl error, w5) \<Rightarrow> (None, processJob_catch job error w5)
                 | (Inr movesData, w5) \<Rightarrow>
                     (Some (statsData, movesData),
                      setJobs (map (\<lambda>j. if job_id j = job_id job
                                         then j\<lparr>movesFileDownloaded := True, status := COMPLETED\<rparr>
                                         else j)) w5)))"

text \<open>\<open>toLowerCase\<close> on the code units below 256, and \<open>endsWith\<close>.\<close>

definition toLowerCase :: "string \<Rightarrow> string" where
  "toLowerCase s =
     map (\<lambda>c. let n = (of_char c :: nat)
               in if (65 \<le> n \<and> n \<le> 90) \<or> (192 \<le> n \<and> n \<le> 222 \<and> n \<noteq> 215)
                  then char_of (n + 32) else c) s"

definition endsWith :: "string \<Rightarrow> string \<Rightarrow> bool" where
  "endsWith s p = (length p \<le> length s \<and> drop (length s - length p) s = p)"

definition getZipName :: "string \<Rightarrow> string \<Rightarrow> string" where
  "getZipName customFilename defaultName =
     (let name = trim customFilename
      in if name = [] then defaultName
         else if \<not> endsWith (toLowerCase name) ''.zip'' then name @ ''.zip''
         else name)"

text \<open>
  \<open>generateFilenames\<close>. The three facts are looked up in the order of the source; a
  conversion to text that throws ends the function with that error.
\<close>

definition generateFilenames :: "jsvalue \<Rightarrow> nat \<Rightarrow> js_error + (string \<times> string)" where
  "generateFilenames stats index =
     bind_e
       (if truthy stats then
          (if truthy (getprop stats ''jornada'') then toStringJS (getprop stats ''jornada'')
           else if truthy (getprop stats ''match'')
                   \<and> truthy (getprop (getprop stats ''match'') ''jornada'')
           then toStringJS (getprop (getprop stats ''match'') ''jornada'')
           else Inr ''0'')
        else Inr ''0'')
       (\<lambda>jornada. bind_e
       (if truthy stats then
          (if truthy (getprop stats ''teams'')
              \<and> optprop (optprop (getindex (getprop stats ''teams'') 0) ''data'') ''score'' \<noteq> JUndefined
           then toStringJS (getprop (getprop (getindex (getprop stats ''teams'') 0) ''data'') ''score'')
           else if getprop stats ''resultatLocal'' \<noteq> JUndefined
           then toStringJS (getprop stats ''resultatLocal'')
           else if truthy (getprop stats ''match'')
                   \<and> getprop (getprop stats ''match'') ''resultatLocal'' \<noteq> JUndefined
           then toStringJS (getprop (getprop stats ''match'') ''resultatLocal'')
           else Inr ''0'')
        else Inr ''0'')
       (\<lambda>pl. bind_e
       (if truthy stats then
          (if truthy (getprop stats ''teams'')
              \<and> optprop (optprop (getindex (getprop stats ''teams'') 1) ''data'') ''score'' \<noteq> JUndefined
           then toStringJS (getprop (getprop (getindex (getprop stats ''teams'') 1) ''data'') ''score'')
           else if getprop stats ''resultatVisitant'' \<noteq> JUndefined
           then toStringJS (getprop stats ''resultatVisitant'')
           else if truthy (getprop stats ''match'')
                   \<and> getprop (getprop stats ''match'') ''resultatVisitant'' \<noteq> JUndefined
           then toStringJS (getprop (getprop stats ''match'') ''resultatVisitant'')
           else Inr ''0'')
        else Inr ''0'')
       (\<lambda>pv.
          let x = trim jornada;
              y = string_of_nat index;
              pl_clean = trim pl;
              pv_clean = trim pv
          in Inr (''J'' @ x @ ''_P'' @ y @ ''_'' @ pl_clean @ ''_'' @ pv_clean @ ''.json'',
                  ''J'' @ x @ ''_P'' @ y @ ''_Moves.json''))))"

text \<open>The job built for a link of the results page (\<open>id || 'unknown'\<close>).\<close>

definition initialJob :: "string \<Rightarrow> MatchJob" where
  "initialJob url =
     (let id = extractMatchId url
      in \<lparr>job_id = (case id of Some i \<Rightarrow> i | None \<Rightarrow> ''unknown''),
          job_url = url,
          status = IDLE,
          statsFileDownloaded = False,
          movesFileDownloaded = False,
          job_error = None,
          matchTitle = Some (''Match '' @ (case id of Some i \<Rightarrow> i | None \<Rightarrow> ''null''))\<rparr>)"

text \<open>
  The queue loop of \<open>handleBulkStart\<close> (\<open>for (let i = 0; i < initialJobs.length; i++)\<close>):
  \<open>n\<close> is \<open>initialJobs.length\<close>, \<open>i\<close> the index of the first job of the rest of the
  queue. An exception in the loop body (a filename that cannot be derived) leaves the loop.
\<close>

fun processQueue ::
  "env \<Rightarrow> nat \<Rightarrow> nat \<Rightarrow> MatchJob list \<Rightarrow> zipfile list \<Rightarrow> world \<Rightarrow> (js_error + zipfile list) \<times> world"
where
  "processQueue env n i [] allFiles w = (Inr allFiles, w)"
| "processQueue env n i (job # rest) allFiles w =
     (let w1 = setJobs (map (\<lambda>j. if job_id j = job_id job then j\<lparr>status := QUEUED\<rparr> else j)) w;
          w2 = setStatusMessage
                 (''Processing '' @ string_of_nat (i + 1) @ '' of '' @ string_of_nat n @ ''...'') w1
      in case processJob env job w2 of
           (None, w3) \<Rightarrow> processQueue env n (i + 1) rest allFiles (delay 1500 w3)
         | (Some (stats, moves), w3) \<Rightarrow>
             (case generateFilenames stats (i + 1) of
                Inl error \<Rightarrow> (Inl error, w3)
              | Inr (statsName, movesName) \<Rightarrow>
                  processQueue env n (i + 1) rest
                    (allFiles @ [(statsName, stats), (''Moves/'' @ movesName, moves)])
                    (delay 1500 w3)))"

text \<open>The \<open>catch\<close> and \<open>finally\<close> blocks of \<open>handleBulkStart\<close>.\<close>

definition bulk_catch :: "js_error \<Rightarrow> world \<Rightarrow> world" where
  "bulk_catch error w =
     setStatusMessage ''Error fetching the list page. Check CORS or URL.'' (log (message error) w)"

definition bulk_finally :: "world \<Rightarrow> world" where
  "bulk_finally w = setIsProcessing False w"

definition handleBulkStart :: "env \<Rightarrow> string \<Rightarrow> string \<Rightarrow> world \<Rightarrow> world" where
  "handleBulkStart env inputUrl customFilename w =
     (let w1 = setStatusMessage ''Fetching result list page...''
                 (setJobs (\<lambda>prev. []) (setIsProcessing True w))
      in case fetchResultsPage env inputUrl w1 of
           (Inl error, w2) \<Rightarrow> bulk_finally (bulk_catch error w2)
         | (Inr links, w2) \<Rightarrow>
             if length links = 0
             then bulk_finally
                    (setIsProcessing False
                      (setStatusMessage ''No statistics links found on that page.'' w2))
             else
               (let w3 = setStatusMessage
                           (''Found '' @ string_of_nat (length links) @ '' matches. queuing...'') w2;
                    initialJobs = filter (\<lambda>j. job_id j \<noteq> ''unknown'') (map initialJob links);
                    w4 = setJobs (\<lambda>prev. initialJobs) w3
                in case processQueue env (length initialJobs) 0 initialJobs [] w4 of
                     (Inl error, w5) \<Rightarrow> bulk_finally (bulk_catch error w5)
                   | (Inr allFiles, w5) \<Rightarrow>
                       bulk_finally
                         (if length allFiles > 0 then
                            (let timestamp =
                                   map (\<lambda>c. if c = CHR '':'' \<or> c = CHR ''.'' then CHR ''-'' else c)
                                     (iso_now env);
                                 defaultName = ''bulk_matches_export_'' @ timestamp @ ''.zip'';
                                 zipFilename = getZipName customFilename defaultName;
                                 w6 = setStatusMessage
                                        (''Compressing '' @ string_of_nat (length allFiles)
                                           @ '' files into one ZIP...'') w5
                             in setStatusMessage ''All jobs finished. ZIP downloaded.''
                                  (snd (downloadAsZip env allFiles zipFilename w6)))
                          else setStatusMessage
                                 ''Finished, but no files were successfully retrieved.'' w5)))"

section \<open>Notions used to state the properties\<close>

text \<open>
  The non-empty chunks of a URL string between slashes, as \<open>extractMatchId\<close> computes
  them, and a direct description of the last one: skip the trailing slashes, then take
  everything back to the slash before.
\<close>

definition chunks :: "string \<Rightarrow> string list" where
  "chunks url = filter (\<lambda>p. length p > 0) (split_js CHR ''/'' url)"

definition last_chunk :: "string \<Rightarrow> string" where
  "last_chunk url =
     rev (takeWhile (\<lambda>c. c \<noteq> CHR ''/'') (dropWhile (\<lambda>c. c = CHR ''/'') (rev url)))"

text \<open>
  The specification speaks of the final non-empty path segment of a URL. The path of a
  URL ends where its query string (\<open>?\<close>) or fragment (\<open>#\<close>) begins; the last path
  segment is the last chunk of the URL without its query string and fragment.
\<close>

definition url_path :: "string \<Rightarrow> string" where
  "url_path url = takeWhile (\<lambda>c. c \<noteq> CHR ''?'' \<and> c \<noteq> CHR ''#'') url"

definition last_path_segment :: "string \<Rightarrow> string" where
  "last_path_segment url = last_chunk (url_path url)"

text \<open>
  The round of a statistics payload as \<open>generateFilenames\<close> finds it: the top-level
  field \<open>jornada\<close> when it is truthy, else the field of that name under \<open>match\<close>
  when that is truthy, else the placeholder; the text is what \<open>String\<close> gives.
\<close>

definition round_text :: "jsvalue \<Rightarrow> js_error + string" where
  "round_text stats =
     (if truthy stats \<and> truthy (getprop stats ''jornada'')
      then toStringJS (getprop stats ''jornada'')
      else if truthy stats \<and> truthy (getprop stats ''match'')
              \<and> truthy (getprop (getprop stats ''match'') ''jornada'')
      then toStringJS (getprop (getprop stats ''match'') ''jornada'')
      else Inr ''0'')"

text \<open>
  The score of one side as \<open>generateFilenames\<close> finds it: the \<open>score\<close> under
  \<open>data\<close> of the element \<open>side\<close> of \<open>teams\<close> when \<open>teams\<close> is truthy and that
  score is not \<open>undefined\<close>, else the top-level field when it is not \<open>undefined\<close>, else
  the field of that name under \<open>match\<close> when that is not \<open>undefined\<close>, else the
  placeholder. The two names built from the three texts.
\<close>

definition score_text :: "jsvalue \<Rightarrow> nat \<Rightarrow> string \<Rightarrow> js_error + string" where
  "score_text stats side field =
     (if truthy stats \<and> truthy (getprop stats ''teams'')
         \<and> getprop (getprop (getindex (getprop stats ''teams'') side) ''data'') ''score'' \<noteq> JUndefined
      then toStringJS (getprop (getprop (getindex (getprop stats ''teams'') side) ''data'') ''score'')
      else if truthy stats \<and> getprop stats field \<noteq> JUndefined
      then toStringJS (getprop stats field)
      else if truthy stats \<and> truthy (getprop stats ''match'')
              \<and> getprop (getprop stats ''match'') field \<noteq> JUndefined
      then toStringJS (getprop (getprop stats ''match'') field)
      else Inr ''0'')"

definition names_of :: "string \<Rightarrow> nat \<Rightarrow> string \<Rightarrow> string \<Rightarrow> string \<times> string" where
  "names_of round index home away =
     (''J'' @ trim round @ ''_P'' @ string_of_nat index @ ''_'' @ trim home @ ''_'' @ trim away
        @ ''.json'',
      ''J'' @ trim round @ ''_P'' @ string_of_nat index @ ''_Moves.json'')"

text \<open>
  The result of the request through one provider when it is request number \<open>k\<close>; the
  events a run has added to a world; the events of failed attempts through a list of
  providers, each followed by the pacing delay of one second.
\<close>

definition attemptOutcome :: "env \<Rightarrow> provider \<Rightarrow> string \<Rightarrow> nat \<Rightarrow> js_error + string" where
  "attemptOutcome env provider url k =
     (case net env k (getUrl provider url) of
        Rejected e \<Rightarrow> Inl e
      | Responded r \<Rightarrow> decodeResponse provider r)"

definition new_events :: "world \<Rightarrow> world \<Rightarrow> event list" where
  "new_events w w' = drop (length (events w)) (events w')"

definition attempt_events :: "string \<Rightarrow> provider list \<Rightarrow> event list" where
  "attempt_events url ps = concat (map (\<lambda>q. [EvFetch (getUrl q url), EvDelay 1000]) ps)"

text \<open>Concrete relays, answers and environments, for the examples.\<close>

definition world0 :: world where
  "world0 = \<lparr>nfetch = 0, events = [], console = [], jobs = [], statusMessage = [],
             isProcessing = False\<rparr>"

definition relayA :: provider where
  "relayA = \<lparr>pname = ''A'', getUrl = (\<lambda>target. ''a/'' @ target), isWrapped = False\<rparr>"

definition relayB :: provider where
  "relayB = \<lparr>pname = ''B'', getUrl = (\<lambda>target. ''b/'' @ target), isWrapped = False\<rparr>"

definition relayC :: provider where
  "relayC = \<lparr>pname = ''C'', getUrl = (\<lambda>target. ''c/'' @ target), isWrapped = False\<rparr>"

definition response_of :: "bool \<Rightarrow> nat \<Rightarrow> string \<Rightarrow> js_error + jsvalue \<Rightarrow> fetch_result" where
  "response_of success code body parsed =
     Responded \<lparr>ok = success, resp_status = code, resp_text = Inr body, resp_json = parsed\<rparr>"

definition env_of :: "(nat \<Rightarrow> string \<Rightarrow> fetch_result) \<Rightarrow> env" where
  "env_of answers =
     \<lparr>net = answers,
      date_now = (\<lambda>k. 0),
      iso_now = ''2026-01-01T00:00:00.000Z'',
      json_parse = (\<lambda>s. Inr (JObj [(''jornada'', JNum 5)])),
      encodeURIComponent = (\<lambda>s. s),
      anchors_of = (\<lambda>html. []),
      zip_generate = (\<lambda>files. Inr ())\<rparr>"

definition env_only_B :: env where
  "env_only_B =
     env_of (\<lambda>k url. if startsWith url ''b/''
                       then response_of True 200 ''X'' (Inl (Error ''Unexpected token X''))
                       else response_of False 503 [] (Inl (Error ''Unexpected end of JSON input'')))"

definition env_wrapped_404 :: env where
  "env_wrapped_404 =
     env_of (\<lambda>k url. response_of True 200 ''{}''
                        (Inr (JObj [(''contents'', JStr ''Not Found''),
                                    (''status'', JObj [(''http_code'', JNum 404)])])))"

text \<open>
  The job lists that the updates of a trace have shown, in order; the events of a transport
  run for a target (a first request, then requests through the relays and pacing delays
  of one second); the update of the jobs with a given identifier.
\<close>

fun snapshots :: "event list \<Rightarrow> MatchJob list list" where
  "snapshots [] = []"
| "snapshots (EvSetJobs js # evs) = js # snapshots evs"
| "snapshots (e # evs) = snapshots evs"

definition relay_event :: "env \<Rightarrow> string \<Rightarrow> event \<Rightarrow> bool" where
  "relay_event env target e \<longleftrightarrow>
     e = EvDelay 1000
     \<or> (\<exists>p\<in>set (PROXY_PROVIDERS env). \<exists>t. e = EvFetch (getUrl p (urlWithCacheBuster target t)))"

definition relay_events :: "env \<Rightarrow> string \<Rightarrow> event list \<Rightarrow> bool" where
  "relay_events env target evs \<longleftrightarrow>
     (\<exists>u more. evs = EvFetch u # more) \<and> list_all (relay_event env target) evs"

definition mark :: "string \<Rightarrow> (MatchJob \<Rightarrow> MatchJob) \<Rightarrow> MatchJob list \<Rightarrow> MatchJob list" where
  "mark i f js = map (\<lambda>j. if job_id j = i then f j else j) js"

text \<open>A world reached from another by requests and pacing delays only.\<close>

definition transported :: "world \<Rightarrow> event list \<Rightarrow> world \<Rightarrow> bool" where
  "transported w new w' \<longleftrightarrow>
     events w' = events w @ new \<and> jobs w' = jobs w
     \<and> statusMessage w' = statusMessage w \<and> isProcessing w' = isProcessing w"

text \<open>The four updates of \<open>processJob\<close>, as functions on the job list.\<close>

definition job_downloading :: "MatchJob \<Rightarrow> MatchJob list \<Rightarrow> MatchJob list" where
  "job_downloading job js = mark (job_id job) (\<lambda>j. j\<lparr>status := DOWNLOADING_JSON\<rparr>) js"

definition job_stats_done :: "MatchJob \<Rightarrow> MatchJob list \<Rightarrow> MatchJob list" where
  "job_stats_done job js = mark (job_id job) (\<lambda>j. j\<lparr>statsFileDownloaded := True\<rparr>) js"

definition job_completed :: "MatchJob \<Rightarrow> MatchJob list \<Rightarrow> MatchJob list" where
  "job_completed job js =
     mark (job_id job) (\<lambda>j. j\<lparr>movesFileDownloaded := True, status := COMPLETED\<rparr>) js"

definition job_failed :: "MatchJob \<Rightarrow> js_error \<Rightarrow> MatchJob list \<Rightarrow> MatchJob list" where
  "job_failed job e js =
     mark (job_id job) (\<lambda>j. j\<lparr>status := ERROR, job_error := Some (message e)\<rparr>) js"

text \<open>
  The flags of a job list are kept by a later one when the lists have the same jobs at the
  same positions and no flag that was set is cleared. A world \<open>w'\<close> is reached in
  \<open>steps\<close> from \<open>w\<close> when the job lists shown since \<open>w\<close>, each compared with
  all later ones, keep the flags, and the last one is the job list of \<open>w'\<close>.
\<close>

definition flags_kept :: "MatchJob list \<Rightarrow> MatchJob list \<Rightarrow> bool" where
  "flags_kept js js' =
     list_all2 (\<lambda>j j'. job_id j' = job_id j
                  \<and> (statsFileDownloaded j \<longrightarrow> statsFileDownloaded j')
                  \<and> (movesFileDownloaded j \<longrightarrow> movesFileDownloaded j')) js js'"

definition steps :: "world \<Rightarrow> world \<Rightarrow> bool" where
  "steps w w' \<longleftrightarrow>
     (\<exists>new. events w' = events w @ new
        \<and> sorted_wrt flags_kept (jobs w # snapshots new)
        \<and> jobs w' = last (jobs w # snapshots new))"

text \<open>The world at the start of a job of the queue: marked as queued, progress message set.\<close>

definition queued :: "nat \<Rightarrow> nat \<Rightarrow> MatchJob \<Rightarrow> world \<Rightarrow> world" where
  "queued n i job w =
     setStatusMessage (''Processing '' @ string_of_nat (i + 1) @ '' of '' @ string_of_nat n @ ''...'')
       (setJobs (map (\<lambda>j. if job_id j = job_id job then j\<lparr>status := QUEUED\<rparr> else j)) w)"

text \<open>
  The trace of one job: the update to \<open>DOWNLOADING_JSON\<close>, the transport of the
  statistics, then either the update after a failure, or the acknowledgement (the flag of
  the statistics set for this job), the delay of 500 ms, the transport of the moves and a
  last update. The trace of the queue from index \<open>i\<close>: for each job in order, the
  update to \<open>QUEUED\<close>, the progress message with its position, the trace of the job and
  the delay of 1500 ms; the flag tells whether the loop ran to its end or was left after a
  job by an exception.
\<close>

definition job_block :: "env \<Rightarrow> MatchJob \<Rightarrow> event list \<Rightarrow> bool" where
  "job_block env job evs \<longleftrightarrow>
     (\<exists>a S b. evs = EvSetJobs a # S @ [EvSetJobs b]
        \<and> relay_events env (matchDataUrl (job_id job) Stats) S)
     \<or> (\<exists>a S b M c. evs = EvSetJobs a # S @ [EvSetJobs b, EvDelay 500] @ M @ [EvSetJobs c]
        \<and> relay_events env (matchDataUrl (job_id job) Stats) S
        \<and> (\<forall>j\<in>set b. job_id j = job_id job \<longrightarrow> statsFileDownloaded j)
        \<and> relay_events env (matchDataUrl (job_id job) Moves) M)"

inductive queue_trace :: "env \<Rightarrow> nat \<Rightarrow> nat \<Rightarrow> MatchJob list \<Rightarrow> bool \<Rightarrow> event list \<Rightarrow> bool"
  for env :: env and n :: nat
where
  finished: "queue_trace env n i [] True []"
| next_job:
    "job_block env job B \<Longrightarrow> queue_trace env n (Suc i) rest c R
      \<Longrightarrow> queue_trace env n i (job # rest) c
            (EvSetJobs q
               # EvStatus (''Processing '' @ string_of_nat (Suc i) @ '' of '' @ string_of_nat n @ ''...'')
               # B @ EvDelay 1500 # R)"
| aborted:
    "job_block env job B
      \<Longrightarrow> queue_trace env n i (job # rest) False
            (EvSetJobs q
               # EvStatus (''Processing '' @ string_of_nat (Suc i) @ '' of '' @ string_of_nat n @ ''...'')
               # B)"

text \<open>
  Environments and queues for the examples: a relay answer that wraps the body \<open>{}\<close>
  with code 200, an environment whose compression step fails, one where the requests
  number 2 to 4 fail (the three attempts for the statistics of the second job of a queue),
  one where the first three requests fail; the reports read off a final world.
\<close>

definition wrapped_ok :: fetch_result where
  "wrapped_ok = response_of True 200 ''{}''
      (Inr (JObj [(''contents'', JStr ''{}''), (''status'', JObj [(''http_code'', JNum 200)])]))"

definition env_zip_fails :: env where
  "env_zip_fails =
     (env_of (\<lambda>k url. wrapped_ok))
       \<lparr>anchors_of := (\<lambda>html. [Some ''/estadistiques/2025/696b6acdd2a7ac0001714803'']),
        zip_generate := (\<lambda>files. Inl (Error ''compression failed''))\<rparr>"

definition final_report :: "world \<Rightarrow> string \<times> bool \<times> string list \<times> event list" where
  "final_report w =
     (statusMessage w, isProcessing w,
      filter (\<lambda>line. line = ''ZIP Generation failed'') (console w),
      filter (\<lambda>e. case e of EvDownload name files \<Rightarrow> True | _ \<Rightarrow> False) (events w))"

definition env_job2_fails :: env where
  "env_job2_fails =
     env_of (\<lambda>k url. if 2 \<le> k \<and> k \<le> 4
                       then response_of False 502 [] (Inl (Error ''Unexpected end of JSON input''))
                       else wrapped_ok)"

definition id_a :: string where "id_a = ''aaaaaaaaaaaaaaaaaaaaaaaa''"

definition id_b :: string where "id_b = ''bbbbbbbbbbbbbbbbbbbbbbbb''"

definition id_c :: string where "id_c = ''cccccccccccccccccccccccc''"

definition detail_url :: "string \<Rightarrow> string" where
  "detail_url i = ''https://www.basquetcatala.cat/estadistiques/2025/'' @ i"

definition queue3 :: "MatchJob list" where
  "queue3 = map initialJob [detail_url id_a, detail_url id_b, detail_url id_c]"

definition fresh_job :: "string \<Rightarrow> MatchJob" where
  "fresh_job i = \<lparr>job_id = i, job_url = detail_url i, status = IDLE, statsFileDownloaded = False,
                  movesFileDownloaded = False, job_error = None, matchTitle = Some (''Match '' @ i)\<rparr>"

definition delays :: "event list \<Rightarrow> nat list" where
  "delays evs = concat (map (\<lambda>e. case e of EvDelay ms \<Rightarrow> [ms] | _ \<Rightarrow> []) evs)"

definition queue_report ::
  "(js_error + zipfile list) \<times> world
     \<Rightarrow> (js_error + string list) \<times> ScrapeStatus list \<times> string option list \<times> bool list list \<times> nat list"
where
  "queue_report r =
     (case fst r of Inl e \<Rightarrow> Inl e | Inr files \<Rightarrow> Inr (map fst files),
      map status (jobs (snd r)), map job_error (jobs (snd r)),
      map (map statsFileDownloaded) (snapshots (events (snd r))),
      delays (events (snd r)))"



text \<open>
  An environment whose parser returns a payload with a round that has no text: an object
  with an own property \<open>toString\<close> that is no function.
\<close>

definition env_names_throw :: env where
  "env_names_throw =
     (env_of (\<lambda>k url. wrapped_ok))
       \<lparr>json_parse := (\<lambda>s. Inr (JObj [(''jornada'', JObj [(''toString'', JNum 1)])]))\<rparr>"
section \<open>Identifier extraction\<close>

lemma split_js_nonempty: "split_js sep s \<noteq> []"
  by (induction s) (auto split: list.splits)

lemma split_js_append: "split_js sep (xs @ sep # ys) = split_js sep xs @ split_js sep ys"
  by (induction xs) (auto split: list.splits simp: split_js_nonempty)

lemma split_js_no_sep: "sep \<notin> set s \<Longrightarrow> split_js sep s = [s]"
  by (induction s) auto

lemma split_js_seps: "split_js sep (replicate n sep) = replicate (Suc n) []"
  by (induction n) auto

lemma chunks_append: "chunks (xs @ CHR ''/'' # ys) = chunks xs @ chunks ys"
  by (simp add: chunks_def split_js_append)

lemma chunks_slashes: "chunks (replicate n CHR ''/'') = []"
  by (simp add: chunks_def split_js_seps)

lemma chunks_segment: "CHR ''/'' \<notin> set s \<Longrightarrow> s \<noteq> [] \<Longrightarrow> chunks s = [s]"
  by (simp add: chunks_def split_js_no_sep)

lemma chunks_segment_slashes:
  "CHR ''/'' \<notin> set s \<Longrightarrow> s \<noteq> [] \<Longrightarrow> chunks (s @ replicate n CHR ''/'') = [s]"
proof (cases n)
  case 0
  then show "CHR ''/'' \<notin> set s \<Longrightarrow> s \<noteq> [] \<Longrightarrow> ?thesis" by (simp add: chunks_segment)
next
  case (Suc m)
  assume "CHR ''/'' \<notin> set s" "s \<noteq> []"
  then show ?thesis
    using Suc chunks_append [of s "replicate m CHR ''/''"]
    by (simp add: chunks_segment chunks_slashes)
qed

lemma chunks_last:
  assumes "CHR ''/'' \<notin> set s" "s \<noteq> []" "pre = [] \<or> last pre = CHR ''/''"
  shows "chunks (pre @ s @ replicate n CHR ''/'') \<noteq> [] \<and> last (chunks (pre @ s @ replicate n CHR ''/'')) = s"
proof (cases "pre = []")
  case True
  then show ?thesis using assms by (simp add: chunks_segment_slashes)
next
  case False
  with assms(3) obtain p where p: "pre = p @ [CHR ''/'']"
    by (metis append_butlast_last_id)
  have "chunks (p @ CHR ''/'' # (s @ replicate n CHR ''/'')) = chunks p @ [s]"
    using assms(1,2) by (simp add: chunks_append chunks_segment_slashes)
  then show ?thesis by (simp add: p)
qed

lemma all_same_replicate: "\<forall>y\<in>set xs. y = c \<Longrightarrow> rev xs = replicate (length xs) c"
  by (induction xs) (auto simp: replicate_append_same)

lemma url_decomp:
  fixes url :: string
  defines "r \<equiv> rev url"
  defines "dw \<equiv> dropWhile (\<lambda>c. c = CHR ''/'') r"
  shows "url = rev (dropWhile (\<lambda>c. c \<noteq> CHR ''/'') dw) @ last_chunk url
               @ replicate (length (takeWhile (\<lambda>c. c = CHR ''/'') r)) CHR ''/''"
proof -
  have sl: "rev (takeWhile (\<lambda>c. c = CHR ''/'') r) = replicate (length (takeWhile (\<lambda>c. c = CHR ''/'') r)) CHR ''/''"
    by (rule all_same_replicate) (auto dest: set_takeWhileD)
  have e: "takeWhile (\<lambda>c. c = CHR ''/'') r @ takeWhile (\<lambda>c. c \<noteq> CHR ''/'') dw @ dropWhile (\<lambda>c. c \<noteq> CHR ''/'') dw = r"
    by (simp add: dw_def)
  have "rev r = rev (takeWhile (\<lambda>c. c = CHR ''/'') r @ takeWhile (\<lambda>c. c \<noteq> CHR ''/'') dw @ dropWhile (\<lambda>c. c \<noteq> CHR ''/'') dw)"
    by (simp only: e)
  also have "\<dots> = rev (dropWhile (\<lambda>c. c \<noteq> CHR ''/'') dw) @ rev (takeWhile (\<lambda>c. c \<noteq> CHR ''/'') dw) @ rev (takeWhile (\<lambda>c. c = CHR ''/'') r)"
    by (simp only: rev_append append_assoc)
  finally show ?thesis
    using sl by (simp add: r_def dw_def last_chunk_def)
qed

lemma last_chunk_no_slash: "CHR ''/'' \<notin> set (last_chunk url)"
  by (auto simp: last_chunk_def dest: set_takeWhileD)

lemma last_chunk_empty:
  assumes "last_chunk url = []"
  shows "chunks url = []"
proof -
  let ?dw = "dropWhile (\<lambda>c. c = CHR ''/'') (rev url)"
  have "?dw = []"
  proof (rule ccontr)
    assume ne: "?dw \<noteq> []"
    from hd_dropWhile [OF ne] have "hd ?dw \<noteq> CHR ''/''" by simp
    then have "takeWhile (\<lambda>c. c \<noteq> CHR ''/'') ?dw \<noteq> []"
      using ne by (cases ?dw) auto
    then show False using assms by (simp add: last_chunk_def)
  qed
  then have "\<forall>y\<in>set url. y = CHR ''/''"
    by (simp add: dropWhile_eq_Nil_conv)
  then have "replicate (length url) CHR ''/'' = url"
    by (rule replicate_length_same)
  moreover have "chunks (replicate (length url) CHR ''/'') = []"
    by (rule chunks_slashes)
  ultimately show ?thesis by simp
qed

lemma last_chunk_nonempty:
  assumes "last_chunk url \<noteq> []"
  shows "chunks url \<noteq> [] \<and> last (chunks url) = last_chunk url"
proof -
  let ?dw = "dropWhile (\<lambda>c. c = CHR ''/'') (rev url)"
  let ?rest = "dropWhile (\<lambda>c. c \<noteq> CHR ''/'') ?dw"
  have "rev ?rest = [] \<or> last (rev ?rest) = CHR ''/''"
  proof (cases "?rest = []")
    case True
    then have "rev ?rest = []" by (simp only: rev.simps)
    then show ?thesis by (rule disjI1)
  next
    case False
    from hd_dropWhile [OF False] have "hd ?rest = CHR ''/''" by simp
    then have "last (rev ?rest) = CHR ''/''" by (simp only: last_rev)
    then show ?thesis by (rule disjI2)
  qed
  note c = chunks_last [OF last_chunk_no_slash assms this,
      where n = "length (takeWhile (\<lambda>c. c = CHR ''/'') (rev url))"]
  have e: "chunks url = chunks (rev ?rest @ last_chunk url @ replicate (length (takeWhile (\<lambda>c. c = CHR ''/'') (rev url))) CHR ''/'')"
    by (rule arg_cong [OF url_decomp])
  show ?thesis unfolding e by (rule c)
qed

lemma extractMatchId_last_chunk:
  "extractMatchId url = (if hex24 (last_chunk url) then Some (last_chunk url) else None)"
proof (cases "last_chunk url = []")
  case True
  then have "chunks url = []" by (rule last_chunk_empty)
  moreover have "\<not> hex24 []" by (simp add: hex24_def)
  ultimately show ?thesis using True by (simp add: extractMatchId_def chunks_def)
next
  case False
  from last_chunk_nonempty [OF False] False show ?thesis
    by (simp add: extractMatchId_def chunks_def Let_def)
qed

lemma separators_not_hex:
  "\<not> is_hex_digit CHR ''/''" "\<not> is_hex_digit CHR ''?''" "\<not> is_hex_digit CHR ''#''"
  by (simp_all add: is_hex_digit_def)

lemma is_hex_digit_not_sep:
  "is_hex_digit c \<Longrightarrow> c \<noteq> CHR ''/'' \<and> c \<noteq> CHR ''?'' \<and> c \<noteq> CHR ''#''"
  using separators_not_hex by blast

lemma hex24_no_slash:
  assumes "hex24 s"
  shows "s \<noteq> [] \<and> CHR ''/'' \<notin> set s \<and> CHR ''?'' \<notin> set s \<and> CHR ''#'' \<notin> set s"
proof -
  from assms have "length s = 24" and all: "\<forall>c\<in>set s. is_hex_digit c"
    by (simp_all add: hex24_def list_all_iff)
  then have "s \<noteq> []" by auto
  moreover from all is_hex_digit_not_sep have "CHR ''/'' \<notin> set s" "CHR ''?'' \<notin> set s" "CHR ''#'' \<notin> set s"
    by blast+
  ultimately show ?thesis by simp
qed

lemma dropWhile_hd_id: "xs \<noteq> [] \<Longrightarrow> \<not> P (hd xs) \<Longrightarrow> dropWhile P xs = xs"
  by (cases xs) auto

lemma last_chunk_query:
  assumes "c \<noteq> CHR ''/''" "CHR ''/'' \<notin> set rest"
  shows "c \<in> set (last_chunk (xs @ c # rest))"
proof -
  let ?L = "rev rest @ c # rev xs"
  have "hd ?L = c \<or> hd ?L \<in> set rest"
    by (cases "rev rest") (auto simp: hd_append dest: arg_cong [where f = set])
  then have hd: "hd ?L \<noteq> CHR ''/''"
    using assms by auto
  have "?L \<noteq> []" by simp
  from dropWhile_hd_id [OF this, of "\<lambda>c. c = CHR ''/''"] hd
  have d: "dropWhile (\<lambda>c. c = CHR ''/'') ?L = ?L" by blast
  have "\<And>x. x \<in> set (rev rest) \<Longrightarrow> x \<noteq> CHR ''/''"
    using assms(2) by auto
  from takeWhile_append2 [of "rev rest" "\<lambda>c. c \<noteq> CHR ''/''", OF this]
  have t: "takeWhile (\<lambda>c. c \<noteq> CHR ''/'') ?L = rev rest @ c # takeWhile (\<lambda>c. c \<noteq> CHR ''/'') (rev xs)"
    using assms(1) by simp
  have "last_chunk (xs @ c # rest) = rev (takeWhile (\<lambda>c. c \<noteq> CHR ''/'') (dropWhile (\<lambda>c. c = CHR ''/'') ?L))"
    by (simp add: last_chunk_def)
  then show ?thesis by (simp only: d t) simp
qed

text \<open>
  Claim C7. The claim as stated: for every URL whose last path segment is a string of 24
  hexadecimal digits, \<open>extractMatchId\<close> returns that string, and \<open>null\<close> for any
  other final segment. The function does not look at the path of the URL but at the
  whole string: in a URL with a query string, the last path segment is a valid identifier
  and the result is \<open>null\<close>.
\<close>

theorem extractMatchId_query_counterexample:
  "last_path_segment ''https://www.basquetcatala.cat/estadistiques/2025/696b6acdd2a7ac0001714803?currentSeason=true''
     = ''696b6acdd2a7ac0001714803''
   \<and> hex24 ''696b6acdd2a7ac0001714803''
   \<and> extractMatchId ''https://www.basquetcatala.cat/estadistiques/2025/696b6acdd2a7ac0001714803?currentSeason=true'' = None"
  by (simp add: last_path_segment_def url_path_def last_chunk_def extractMatchId_def hex24_def is_hex_digit_def)

text \<open>
  Claim C7, amended: for every URL string, \<open>extractMatchId\<close> returns the last
  non-empty chunk of the whole string between slashes (query string and fragment
  included) when that chunk consists of exactly 24 hexadecimal digits, and \<open>null\<close>
  otherwise, also when there is no non-empty chunk.
\<close>

theorem extractMatchId_closed_form:
  "extractMatchId url = (if hex24 (last_chunk url) then Some (last_chunk url) else None)"
  by (rule extractMatchId_last_chunk)

text \<open>
  Claim C10. The claim as stated: a URL ending in a valid identifier followed only by
  slashes gives the identifier, and every URL in which a query string or fragment follows
  the identifier segment gives \<open>null\<close>. The second half fails when the query string
  itself contains a slash followed by 24 hexadecimal digits: the last chunk is then taken
  from the query string.
\<close>

theorem extractMatchId_query_with_slash_counterexample:
  "hex24 ''696b6acdd2a7ac0001714803''
   \<and> extractMatchId (''https://www.basquetcatala.cat/estadistiques/2025/'' @ ''696b6acdd2a7ac0001714803''
        @ CHR ''?'' # ''from=/696b6acdd2a7ac0001714803'')
     = Some ''696b6acdd2a7ac0001714803''"
  by (simp add: extractMatchId_def hex24_def is_hex_digit_def)

text \<open>
  Claim C10, amended: a URL that ends in a valid identifier segment followed only by
  slashes gives the identifier; a URL in which the identifier is followed by a query
  string or fragment that contains no slash gives \<open>null\<close>.
\<close>

theorem extractMatchId_trailing_slashes_and_query:
  "(hex24 ident \<and> (pre = [] \<or> last pre = CHR ''/'')
      \<longrightarrow> extractMatchId (pre @ ident @ replicate n CHR ''/'') = Some ident)
   \<and> (hex24 ident \<and> (c = CHR ''?'' \<or> c = CHR ''#'') \<and> CHR ''/'' \<notin> set rest
      \<longrightarrow> extractMatchId (pre @ ident @ c # rest) = None)"
proof (intro conjI impI)
  assume a: "hex24 ident \<and> (pre = [] \<or> last pre = CHR ''/'')"
  then have i: "CHR ''/'' \<notin> set ident" "ident \<noteq> []" using hex24_no_slash by auto
  from a have p: "pre = [] \<or> last pre = CHR ''/''" by simp
  from chunks_last [OF i p, of n] a i(2)
  show "extractMatchId (pre @ ident @ replicate n CHR ''/'') = Some ident"
    by (simp add: extractMatchId_def chunks_def Let_def)
next
  assume a: "hex24 ident \<and> (c = CHR ''?'' \<or> c = CHR ''#'') \<and> CHR ''/'' \<notin> set rest"
  then have "c \<noteq> CHR ''/''" by auto
  from last_chunk_query [OF this, of rest "pre @ ident"] a
  have "c \<in> set (last_chunk (pre @ ident @ c # rest))" by simp
  moreover have "c \<notin> set s" if "hex24 s" for s
    using that a hex24_no_slash by blast
  ultimately have "\<not> hex24 (last_chunk (pre @ ident @ c # rest))"
    by blast
  then show "extractMatchId (pre @ ident @ c # rest) = None"
    by (simp only: extractMatchId_last_chunk if_False)
qed

theorem extractMatchId_trailing_slashes_and_query_witness:
  "extractMatchId ''https://www.basquetcatala.cat/estadistiques/2025/696b6acdd2a7ac0001714803//''
     = Some ''696b6acdd2a7ac0001714803''
   \<and> extractMatchId ''https://www.basquetcatala.cat/estadistiques/2025/696b6acdd2a7ac0001714803?currentSeason=true''
     = None"
proof -
  have h: "hex24 ''696b6acdd2a7ac0001714803''"
    by (simp add: hex24_def is_hex_digit_def)
  show ?thesis
    using h extractMatchId_trailing_slashes_and_query
      [of "''696b6acdd2a7ac0001714803''" "''https://www.basquetcatala.cat/estadistiques/2025/''" 2
          "CHR ''?''" "''currentSeason=true''"]
    by (simp add: numeral_2_eq_2)
qed

section \<open>Filename derivation\<close>

lemma bind_e_Inr: "bind_e m f = Inr y \<Longrightarrow> \<exists>x. m = Inr x \<and> f x = Inr y"
  by (cases m) (simp_all add: bind_e_def)

lemma startsWith_append: "startsWith (p @ s) p"
  by (simp add: startsWith_def)

lemma optprop_getprop: "optprop v k = getprop v k"
  by (cases v) (simp_all add: optprop_def)

lemma generateFilenames_binds:
  "generateFilenames stats index =
     bind_e (round_text stats) (\<lambda>round.
       bind_e (score_text stats 0 ''resultatLocal'') (\<lambda>home.
         bind_e (score_text stats 1 ''resultatVisitant'') (\<lambda>away.
           Inr (names_of round index home away))))"
proof (cases "truthy stats")
  case True
  then show ?thesis
    unfolding generateFilenames_def round_text_def score_text_def names_of_def optprop_getprop
    by (simp add: Let_def)
next
  case False
  then show ?thesis
    unfolding generateFilenames_def round_text_def score_text_def names_of_def
    by (simp add: Let_def)
qed

text \<open>
  Claim C3. The claim as stated: the round is the top-level round field when present, else
  the field nested under \<open>match\<close>, else \<open>0\<close>. The function tests the field for
  truthiness, not for presence: a payload whose top-level round is the number 0 and whose
  nested round is 7 gets the names of round 7.
\<close>

theorem generateFilenames_round_counterexample:
  "getprop (JObj [(''jornada'', JNum 0), (''match'', JObj [(''jornada'', JNum 7)])]) ''jornada'' = JNum 0
   \<and> generateFilenames (JObj [(''jornada'', JNum 0), (''match'', JObj [(''jornada'', JNum 7)])]) 1
       = Inr (''J7_P1_0_0.json'', ''J7_P1_Moves.json'')"
  by code_simp

text \<open>
  Claim C3, amended. For every payload and every index the result of
  \<open>generateFilenames\<close> is given by three texts: the round, which is the text of the
  top-level round field when that field is truthy (present and not \<open>0\<close>, the empty string,
  \<open>false\<close> or \<open>null\<close>), else of the field nested under \<open>match\<close> when that is truthy,
  else the placeholder \<open>0\<close>; and the two scores. When the conversion of one of the three
  to text throws, the function throws that error, the round's first; otherwise, and only
  then, it returns the names \<open>J\<close>, trimmed round, \<open>_P\<close>, index, \<open>_\<close>, trimmed home
  score, \<open>_\<close>, trimmed away score, \<open>.json\<close> and \<open>J\<close>, trimmed round, \<open>_P\<close>, index,
  \<open>_Moves.json\<close>. The payload of the specification's example with index 3 gives
  \<open>J5_P3_88_76.json\<close> and \<open>J5_P3_Moves.json\<close>; an absent payload with index 1 gives
  \<open>J0_P1_0_0.json\<close> and \<open>J0_P1_Moves.json\<close>, and so does the empty object, a present
  payload with no round; a payload whose only round field is the empty string gets the
  placeholder; a round that is an object with an own property \<open>toString\<close> makes the
  function throw.
\<close>

theorem generateFilenames_round:
  "generateFilenames stats index =
     (case round_text stats of
        Inl e \<Rightarrow> Inl e
      | Inr round \<Rightarrow>
          (case score_text stats 0 ''resultatLocal'' of
             Inl e \<Rightarrow> Inl e
           | Inr home \<Rightarrow>
               (case score_text stats 1 ''resultatVisitant'' of
                  Inl e \<Rightarrow> Inl e
                | Inr away \<Rightarrow>
                    Inr (''J'' @ trim round @ ''_P'' @ string_of_nat index @ ''_'' @ trim home
                           @ ''_'' @ trim away @ ''.json'',
                         ''J'' @ trim round @ ''_P'' @ string_of_nat index @ ''_Moves.json''))))
   \<and> (isl (generateFilenames stats index) \<longleftrightarrow>
        isl (round_text stats) \<or> isl (score_text stats 0 ''resultatLocal'')
        \<or> isl (score_text stats 1 ''resultatVisitant''))
   \<and> generateFilenames
        (JObj [(''teams'', JArr [JObj [(''data'', JObj [(''score'', JStr ''88'')])],
                                JObj [(''data'', JObj [(''score'', JStr ''76'')])]]),
               (''jornada'', JNum 5)]) 3
      = Inr (''J5_P3_88_76.json'', ''J5_P3_Moves.json'')
   \<and> generateFilenames JUndefined 1 = Inr (''J0_P1_0_0.json'', ''J0_P1_Moves.json'')
   \<and> generateFilenames JNull 1 = Inr (''J0_P1_0_0.json'', ''J0_P1_Moves.json'')
   \<and> generateFilenames (JObj []) 1 = Inr (''J0_P1_0_0.json'', ''J0_P1_Moves.json'')
   \<and> generateFilenames
        (JObj [(''jornada'', JStr []), (''resultatLocal'', JNum 70),
               (''resultatVisitant'', JNum 65)]) 4
      = Inr (''J0_P4_70_65.json'', ''J0_P4_Moves.json'')
   \<and> generateFilenames (JObj [(''jornada'', JObj [(''toString'', JNum 1)])]) 1
      = Inl (TypeError ''Cannot convert object to primitive value'')"
proof (intro conjI)
  show "generateFilenames stats index =
     (case round_text stats of
        Inl e \<Rightarrow> Inl e
      | Inr round \<Rightarrow>
          (case score_text stats 0 ''resultatLocal'' of
             Inl e \<Rightarrow> Inl e
           | Inr home \<Rightarrow>
               (case score_text stats 1 ''resultatVisitant'' of
                  Inl e \<Rightarrow> Inl e
                | Inr away \<Rightarrow>
                    Inr (''J'' @ trim round @ ''_P'' @ string_of_nat index @ ''_'' @ trim home
                           @ ''_'' @ trim away @ ''.json'',
                         ''J'' @ trim round @ ''_P'' @ string_of_nat index @ ''_Moves.json''))))"
    unfolding generateFilenames_binds
    by (simp add: bind_e_def names_of_def split: sum.splits)
  show "isl (generateFilenames stats index) \<longleftrightarrow>
        isl (round_text stats) \<or> isl (score_text stats 0 ''resultatLocal'')
        \<or> isl (score_text stats 1 ''resultatVisitant'')"
    unfolding generateFilenames_binds
    by (simp add: bind_e_def split: sum.splits)
  show "generateFilenames
        (JObj [(''teams'', JArr [JObj [(''data'', JObj [(''score'', JStr ''88'')])],
                                JObj [(''data'', JObj [(''score'', JStr ''76'')])]]),
               (''jornada'', JNum 5)]) 3
      = Inr (''J5_P3_88_76.json'', ''J5_P3_Moves.json'')"
    by code_simp
  show "generateFilenames JUndefined 1 = Inr (''J0_P1_0_0.json'', ''J0_P1_Moves.json'')"
    by code_simp
  show "generateFilenames JNull 1 = Inr (''J0_P1_0_0.json'', ''J0_P1_Moves.json'')"
    by code_simp
  show "generateFilenames (JObj []) 1 = Inr (''J0_P1_0_0.json'', ''J0_P1_Moves.json'')"
    by code_simp
  show "generateFilenames
        (JObj [(''jornada'', JStr []), (''resultatLocal'', JNum 70),
               (''resultatVisitant'', JNum 65)]) 4
      = Inr (''J0_P4_70_65.json'', ''J0_P4_Moves.json'')"
    by code_simp
  show "generateFilenames (JObj [(''jornada'', JObj [(''toString'', JNum 1)])]) 1
      = Inl (TypeError ''Cannot convert object to primitive value'')"
    by code_simp
qed

theorem generateFilenames_round_witness:
  "generateFilenames (JObj [(''match'', JObj [(''jornada'', JStr '' 12 '')])]) 2
       = Inr (''J12_P2_0_0.json'', ''J12_P2_Moves.json'')"
proof -
  have r: "round_text (JObj [(''match'', JObj [(''jornada'', JStr '' 12 '')])]) = Inr '' 12 ''"
    by (simp add: round_text_def)
  have h: "score_text (JObj [(''match'', JObj [(''jornada'', JStr '' 12 '')])]) 0 ''resultatLocal''
      = Inr ''0''"
    by (simp add: score_text_def)
  have a: "score_text (JObj [(''match'', JObj [(''jornada'', JStr '' 12 '')])]) 1 ''resultatVisitant''
      = Inr ''0''"
    by (simp add: score_text_def)
  have t: "trim '' 12 '' = ''12''" "trim ''0'' = ''0''" by code_simp+
  have n: "string_of_nat 2 = ''2''" by code_simp
  from generateFilenames_round
         [of "JObj [(''match'', JObj [(''jornada'', JStr '' 12 '')])]" 2, THEN conjunct1]
  show ?thesis
    unfolding r h a by (simp add: t n)
qed

section \<open>Link extraction\<close>

lemma remdups_drop_repeated:
  "x \<in> set ys \<Longrightarrow> remdups (xs @ x # ys) = remdups (xs @ ys)"
  by (induction xs) auto

lemma foldl_set_add:
  "distinct acc \<Longrightarrow> foldl set_add acc xs = rev (remdups (rev xs @ rev acc))"
proof (induction xs arbitrary: acc)
  case Nil
  then show ?case by (simp add: distinct_remdups_id)
next
  case (Cons x xs)
  show ?case
  proof (cases "x \<in> set acc")
    case True
    then have "remdups (rev xs @ x # rev acc) = remdups (rev xs @ rev acc)"
      by (intro remdups_drop_repeated) simp
    with True Cons show ?thesis by (simp add: set_add_def)
  next
    case False
    with Cons.prems have "distinct (acc @ [x])" by simp
    from Cons.IH [OF this] False show ?thesis by (simp add: set_add_def)
  qed
qed

lemma new_Set_first_occurrences: "new_Set xs = rev (remdups (rev xs))"
  using foldl_set_add [of "[]" xs] by (simp add: new_Set_def)

lemma set_statsHrefs:
  "set (statsHrefs hrefs) = {h. Some h \<in> set hrefs \<and> includes_js h ''/estadistiques/''}"
  by (induction hrefs rule: statsHrefs.induct) auto

lemma BASE_URL_http: "startsWith (BASE_URL @ s) ''http''"
  by (simp add: startsWith_def BASE_URL_def)

lemma normalizeHref_http: "startsWith (normalizeHref h) ''http''"
  using BASE_URL_http by (simp add: normalizeHref_def)

lemma startsWith_iff: "startsWith s t \<longleftrightarrow> (\<exists>post. s = t @ post)"
proof
  assume "startsWith s t"
  then have "s = t @ drop (length t) s"
    unfolding startsWith_def by (metis append_take_drop_id)
  then show "\<exists>post. s = t @ post" ..
next
  assume "\<exists>post. s = t @ post"
  then show "startsWith s t" by (auto simp: startsWith_def)
qed

lemma includes_js_iff: "includes_js s t \<longleftrightarrow> (\<exists>pre post. s = pre @ t @ post)"
proof (induction s)
  case Nil
  show ?case by auto
next
  case (Cons c cs)
  show ?case
  proof
    assume "includes_js (c # cs) t"
    then consider "startsWith (c # cs) t" | "includes_js cs t" by auto
    then show "\<exists>pre post. c # cs = pre @ t @ post"
    proof cases
      case 1
      then obtain post where "c # cs = t @ post" unfolding startsWith_iff ..
      then have "c # cs = [] @ t @ post" by simp
      then show ?thesis by blast
    next
      case 2
      with Cons.IH obtain pre post where "cs = pre @ t @ post" by blast
      then have "c # cs = (c # pre) @ t @ post" by simp
      then show ?thesis by blast
    qed
  next
    assume "\<exists>pre post. c # cs = pre @ t @ post"
    then obtain pre post where e: "c # cs = pre @ t @ post" by blast
    show "includes_js (c # cs) t"
    proof (cases pre)
      case Nil
      with e have "startsWith (c # cs) t" unfolding startsWith_iff by auto
      then show ?thesis by simp
    next
      case (Cons d ds)
      with e have "cs = ds @ t @ post" by simp
      with Cons.IH have "includes_js cs t" by blast
      then show ?thesis by simp
    qed
  qed
qed

lemma statsHrefs_filter:
  "statsHrefs hrefs
     = filter (\<lambda>h. \<exists>pre post. h = pre @ ''/estadistiques/'' @ post)
         (map the (filter (\<lambda>x. x \<noteq> None) hrefs))"
  by (induction hrefs rule: statsHrefs.induct) (simp_all add: includes_js_iff)

lemma startsWith_http: "startsWith h ''http'' \<longleftrightarrow> take 4 h = ''http''"
proof -
  have four: "length ''http'' = 4" by simp
  show ?thesis by (simp only: startsWith_def four)
qed

lemma startsWith_slash: "startsWith h ''/'' \<longleftrightarrow> take 1 h = ''/''"
proof -
  have one: "length ''/'' = 1" by simp
  show ?thesis by (simp only: startsWith_def one)
qed

lemma normalizeHref_direct:
  "normalizeHref
     = (\<lambda>h. if take 4 h = ''http'' then h
             else if take 1 h = ''/'' then ''https://www.basquetcatala.cat'' @ h
             else ''https://www.basquetcatala.cat/'' @ h)"
  by (rule ext) (simp add: normalizeHref_def startsWith_http startsWith_slash BASE_URL_def)

lemma statsHrefs_append: "statsHrefs (xs @ ys) = statsHrefs xs @ statsHrefs ys"
  by (induction xs rule: statsHrefs.induct) simp_all

lemma extractMatchLinks_snoc:
  "extractMatchLinks (hrefs @ [x])
     = (case x of
          None \<Rightarrow> extractMatchLinks hrefs
        | Some h \<Rightarrow>
            if includes_js h ''/estadistiques/'' \<and> normalizeHref h \<notin> set (extractMatchLinks hrefs)
            then extractMatchLinks hrefs @ [normalizeHref h]
            else extractMatchLinks hrefs)"
  by (cases x) (simp_all add: extractMatchLinks_def new_Set_def statsHrefs_append set_add_def)

text \<open>
  Claim C8. The claim as stated: each distinct normalized match-statistics URL is returned
  exactly once, in the order of first occurrence; relative hrefs are normalized to absolute
  URLs using the site origin; no matching link gives the empty list. The function takes an
  href for absolute when it begins with the four characters \<open>http\<close>: a relative href
  that begins with them (it has no scheme, no colon at all) is returned as it is.
\<close>

theorem extractMatchLinks_relative_http_counterexample:
  "extractMatchLinks [Some ''httpd/estadistiques/1''] = [''httpd/estadistiques/1'']
   \<and> CHR '':'' \<notin> set ''httpd/estadistiques/1''
   \<and> \<not> startsWith ''httpd/estadistiques/1'' BASE_URL"
  by code_simp

text \<open>
  Claim C8, amended. The hrefs of the anchors are given in document order, \<open>None\<close> for an
  anchor without the attribute. The result is, in closed form: drop the anchors without
  href, keep the hrefs that contain \<open>/estadistiques/\<close>, make each absolute, and of equal
  links keep the first (\<open>remdups\<close> keeps the last copy of each element, so on the reversed
  list it keeps the first). An href is made absolute as follows: one that begins with
  \<open>http\<close> is kept as it is; any other is prefixed with the site origin, with a slash in
  between when it does not begin with one. The order is also given step by step along the
  document: with no anchor the result is empty; one more anchor at the end of the document
  adds its absolute link at the end of the result when its href contains
  \<open>/estadistiques/\<close> and the link is not yet in the result, and changes nothing
  otherwise. So the result has no duplicates, holds exactly the absolute forms of the
  matching hrefs, every result begins with \<open>http\<close>, and a page with no matching link
  gives the empty list.
\<close>

theorem extractMatchLinks_distinct_first_seen:
  "extractMatchLinks hrefs
     = rev (remdups (rev
         (map (\<lambda>h. if take 4 h = ''http'' then h
                    else if take 1 h = ''/'' then ''https://www.basquetcatala.cat'' @ h
                    else ''https://www.basquetcatala.cat/'' @ h)
            (filter (\<lambda>h. \<exists>pre post. h = pre @ ''/estadistiques/'' @ post)
               (map the (filter (\<lambda>x. x \<noteq> None) hrefs))))))
   \<and> extractMatchLinks [] = []
   \<and> extractMatchLinks (hrefs @ [None]) = extractMatchLinks hrefs
   \<and> extractMatchLinks (hrefs @ [Some h])
       = (if (\<exists>pre post. h = pre @ ''/estadistiques/'' @ post)
             \<and> (if take 4 h = ''http'' then h
                 else if take 1 h = ''/'' then ''https://www.basquetcatala.cat'' @ h
                 else ''https://www.basquetcatala.cat/'' @ h) \<notin> set (extractMatchLinks hrefs)
          then extractMatchLinks hrefs
                 @ [if take 4 h = ''http'' then h
                    else if take 1 h = ''/'' then ''https://www.basquetcatala.cat'' @ h
                    else ''https://www.basquetcatala.cat/'' @ h]
          else extractMatchLinks hrefs)
   \<and> distinct (extractMatchLinks hrefs)
   \<and> set (extractMatchLinks hrefs)
       = (\<lambda>h. if take 4 h = ''http'' then h
               else if take 1 h = ''/'' then ''https://www.basquetcatala.cat'' @ h
               else ''https://www.basquetcatala.cat/'' @ h)
         ` {h. Some h \<in> set hrefs \<and> (\<exists>pre post. h = pre @ ''/estadistiques/'' @ post)}
   \<and> (\<forall>u \<in> set (extractMatchLinks hrefs). take 4 u = ''http'')
   \<and> ((\<forall>h pre post. Some h \<in> set hrefs \<longrightarrow> h \<noteq> pre @ ''/estadistiques/'' @ post)
        \<longrightarrow> extractMatchLinks hrefs = [])"
proof -
  let ?xs = "map normalizeHref (statsHrefs hrefs)"
  have eq: "extractMatchLinks hrefs = rev (remdups (rev ?xs))"
    by (simp add: extractMatchLinks_def new_Set_first_occurrences)
  have closed: "extractMatchLinks hrefs
     = rev (remdups (rev
         (map (\<lambda>h. if take 4 h = ''http'' then h
                    else if take 1 h = ''/'' then ''https://www.basquetcatala.cat'' @ h
                    else ''https://www.basquetcatala.cat/'' @ h)
            (filter (\<lambda>h. \<exists>pre post. h = pre @ ''/estadistiques/'' @ post)
               (map the (filter (\<lambda>x. x \<noteq> None) hrefs))))))"
    unfolding eq statsHrefs_filter normalizeHref_direct ..
  have nil: "extractMatchLinks [] = []"
    by (simp add: extractMatchLinks_def new_Set_def)
  have none: "extractMatchLinks (hrefs @ [None]) = extractMatchLinks hrefs"
    by (simp add: extractMatchLinks_snoc)
  have some: "extractMatchLinks (hrefs @ [Some h])
       = (if (\<exists>pre post. h = pre @ ''/estadistiques/'' @ post)
             \<and> (if take 4 h = ''http'' then h
                 else if take 1 h = ''/'' then ''https://www.basquetcatala.cat'' @ h
                 else ''https://www.basquetcatala.cat/'' @ h) \<notin> set (extractMatchLinks hrefs)
          then extractMatchLinks hrefs
                 @ [if take 4 h = ''http'' then h
                    else if take 1 h = ''/'' then ''https://www.basquetcatala.cat'' @ h
                    else ''https://www.basquetcatala.cat/'' @ h]
          else extractMatchLinks hrefs)"
    unfolding extractMatchLinks_snoc includes_js_iff normalizeHref_direct by simp
  have d: "distinct (extractMatchLinks hrefs)"
    by (simp add: eq)
  have s: "set (extractMatchLinks hrefs) = set ?xs"
    by (simp add: eq)
  have s': "set (extractMatchLinks hrefs)
       = (\<lambda>h. if take 4 h = ''http'' then h
               else if take 1 h = ''/'' then ''https://www.basquetcatala.cat'' @ h
               else ''https://www.basquetcatala.cat/'' @ h)
         ` {h. Some h \<in> set hrefs \<and> (\<exists>pre post. h = pre @ ''/estadistiques/'' @ post)}"
    unfolding s set_map set_statsHrefs includes_js_iff normalizeHref_direct ..
  have a: "\<forall>u \<in> set (extractMatchLinks hrefs). take 4 u = ''http''"
    using normalizeHref_http unfolding startsWith_http by (auto simp: s)
  have e: "(\<forall>h pre post. Some h \<in> set hrefs \<longrightarrow> h \<noteq> pre @ ''/estadistiques/'' @ post)
        \<longrightarrow> extractMatchLinks hrefs = []"
  proof
    assume "\<forall>h pre post. Some h \<in> set hrefs \<longrightarrow> h \<noteq> pre @ ''/estadistiques/'' @ post"
    then have empty: "{h. Some h \<in> set hrefs \<and> (\<exists>pre post. h = pre @ ''/estadistiques/'' @ post)} = {}"
      by blast
    have "set (extractMatchLinks hrefs) = {}" unfolding s' empty by (rule image_empty)
    then show "extractMatchLinks hrefs = []" by simp
  qed
  from closed nil none some d s' a e show ?thesis by (intro conjI)
qed

theorem extractMatchLinks_distinct_first_seen_witness:
  "extractMatchLinks [Some ''/competicions/resultats'', None, Some ''#top''] = []
   \<and> extractMatchLinks
        [Some ''/estadistiques/2025/a1'', None, Some ''estadistiques'', Some ''x/estadistiques/b2'',
         Some ''https://www.basquetcatala.cat/estadistiques/2025/a1'', Some ''x/estadistiques/b2'']
       = [''https://www.basquetcatala.cat/estadistiques/2025/a1'',
          ''https://www.basquetcatala.cat/x/estadistiques/b2'']
   \<and> list_all (\<lambda>u. take 4 u = ''http'')
         [''https://www.basquetcatala.cat/estadistiques/2025/a1'',
          ''https://www.basquetcatala.cat/x/estadistiques/b2'']"
proof -
  have "\<not> includes_js h ''/estadistiques/''"
    if "Some h \<in> set [Some ''/competicions/resultats'', None, Some ''#top'']" for h
    using that by (auto simp: startsWith_def)
  then have "\<forall>h pre post. Some h \<in> set [Some ''/competicions/resultats'', None, Some ''#top'']
          \<longrightarrow> h \<noteq> pre @ ''/estadistiques/'' @ post"
    unfolding includes_js_iff by blast
  with extractMatchLinks_distinct_first_seen
         [of "[Some ''/competicions/resultats'', None, Some ''#top'']"]
  have first: "extractMatchLinks [Some ''/competicions/resultats'', None, Some ''#top''] = []"
    by blast
  have second: "extractMatchLinks
        [Some ''/estadistiques/2025/a1'', None, Some ''estadistiques'', Some ''x/estadistiques/b2'',
         Some ''https://www.basquetcatala.cat/estadistiques/2025/a1'', Some ''x/estadistiques/b2'']
       = [''https://www.basquetcatala.cat/estadistiques/2025/a1'',
          ''https://www.basquetcatala.cat/x/estadistiques/b2'']"
    by code_simp
  from extractMatchLinks_distinct_first_seen
         [of "[Some ''/estadistiques/2025/a1'', None, Some ''estadistiques'',
               Some ''x/estadistiques/b2'',
               Some ''https://www.basquetcatala.cat/estadistiques/2025/a1'',
               Some ''x/estadistiques/b2'']"]
  have "\<forall>u \<in> set (extractMatchLinks
        [Some ''/estadistiques/2025/a1'', None, Some ''estadistiques'', Some ''x/estadistiques/b2'',
         Some ''https://www.basquetcatala.cat/estadistiques/2025/a1'', Some ''x/estadistiques/b2'']).
        take 4 u = ''http''"
    by blast
  then have third: "list_all (\<lambda>u. take 4 u = ''http'')
         [''https://www.basquetcatala.cat/estadistiques/2025/a1'',
          ''https://www.basquetcatala.cat/x/estadistiques/b2'']"
    unfolding second list_all_iff .
  from first second third show ?thesis by (intro conjI)
qed

section \<open>The resource fetcher\<close>

lemmas world_defs = emit_def log_def delay_def setJobs_def setStatusMessage_def setIsProcessing_def

lemma attempt_eq:
  "attempt env p u w =
     (attemptOutcome env p u (nfetch w),
      emit (EvFetch (getUrl p u))
        ((log (''Attempting fetch via '' @ pname p @ ''...'') w)\<lparr>nfetch := Suc (nfetch w)\<rparr>))"
  by (simp add: attempt_def attemptOutcome_def Let_def log_def)

lemma providerLoop_failed_prefix:
  assumes "\<forall>i<length pre. isl (attemptOutcome env (pre ! i) u (nfetch w + i))"
  shows "\<exists>w1. providerLoop env u (pre @ rest) lastError w
               = providerLoop env u rest
                   (if pre = [] then lastError
                    else Some (projl (attemptOutcome env (last pre) u (nfetch w + length pre - 1)))) w1
              \<and> events w1 = events w @ attempt_events u pre
              \<and> nfetch w1 = nfetch w + length pre
              \<and> jobs w1 = jobs w \<and> statusMessage w1 = statusMessage w
              \<and> isProcessing w1 = isProcessing w"
  using assms
proof (induction pre arbitrary: w lastError)
  case Nil
  show ?case by (rule exI [of _ w]) (simp add: attempt_events_def)
next
  case (Cons p pre)
  from Cons.prems have "isl (attemptOutcome env p u (nfetch w))" by fastforce
  then obtain e where e: "attemptOutcome env p u (nfetch w) = Inl e"
    by (cases "attemptOutcome env p u (nfetch w)") auto
  define w' where "w' = delay 1000 (log (''Failed with '' @ pname p @ '':'')
      (emit (EvFetch (getUrl p u))
        ((log (''Attempting fetch via '' @ pname p @ ''...'') w)\<lparr>nfetch := Suc (nfetch w)\<rparr>)))"
  have step: "providerLoop env u ((p # pre) @ rest) lastError w
               = providerLoop env u (pre @ rest) (Some e) w'"
    by (simp add: attempt_eq e w'_def)
  have w': "events w' = events w @ [EvFetch (getUrl p u), EvDelay 1000]"
    "nfetch w' = Suc (nfetch w)" "jobs w' = jobs w" "statusMessage w' = statusMessage w"
    "isProcessing w' = isProcessing w"
    by (simp_all add: w'_def world_defs)
  have "\<forall>i<length pre. isl (attemptOutcome env (pre ! i) u (nfetch w' + i))"
  proof (intro allI impI)
    fix i assume "i < length pre"
    with Cons.prems have "isl (attemptOutcome env ((p # pre) ! Suc i) u (nfetch w + Suc i))"
      by (metis length_Cons Suc_less_eq)
    then show "isl (attemptOutcome env (pre ! i) u (nfetch w' + i))"
      by (simp add: w')
  qed
  from Cons.IH [OF this, of "Some e"] obtain w1 where
    w1: "providerLoop env u (pre @ rest) (Some e) w'
           = providerLoop env u rest
              (if pre = [] then Some e
               else Some (projl (attemptOutcome env (last pre) u (nfetch w' + length pre - 1)))) w1"
        "events w1 = events w' @ attempt_events u pre"
        "nfetch w1 = nfetch w' + length pre"
        "jobs w1 = jobs w'" "statusMessage w1 = statusMessage w'"
        "isProcessing w1 = isProcessing w'"
    by blast
  have last: "(if pre = [] then Some e
               else Some (projl (attemptOutcome env (last pre) u (nfetch w' + length pre - 1))))
        = Some (projl (attemptOutcome env (last (p # pre)) u (nfetch w + length (p # pre) - 1)))"
    by (simp add: e w')
  show ?case
    apply (rule exI [of _ w1])
    using step w1 w' last by (simp add: attempt_events_def)
qed

lemma trim_empty_iff: "trim s = [] \<longleftrightarrow> list_all is_ws s"
proof -
  let ?d = "dropWhile is_ws s"
  have A: "(\<forall>x\<in>set ?d. is_ws x) \<longleftrightarrow> ?d = []"
  proof
    assume all: "\<forall>x\<in>set ?d. is_ws x"
    show "?d = []"
    proof (rule ccontr)
      assume ne: "?d \<noteq> []"
      from hd_dropWhile [OF ne] have "\<not> is_ws (hd ?d)" .
      moreover from ne have "hd ?d \<in> set ?d" by (rule hd_in_set)
      ultimately show False using all by blast
    qed
  next
    assume e: "?d = []"
    show "\<forall>x\<in>set ?d. is_ws x" unfolding e by simp
  qed
  have "trim s = [] \<longleftrightarrow> (\<forall>x\<in>set ?d. is_ws x)"
    by (simp add: trim_def dropWhile_eq_Nil_conv)
  also have "\<dots> \<longleftrightarrow> ?d = []" by (rule A)
  also have "\<dots> \<longleftrightarrow> (\<forall>x\<in>set s. is_ws x)" by (simp add: dropWhile_eq_Nil_conv)
  finally show ?thesis by (simp add: list_all_iff)
qed

lemma decodeResponse_not_blank:
  assumes "decodeResponse p r = Inr body"
  shows "\<not> list_all is_ws body"
proof -
  from assms have "trim body \<noteq> []"
    by (auto simp: decodeResponse_def bind_e_def split: if_splits sum.splits jsvalue.splits)
  then show ?thesis by (simp add: trim_empty_iff)
qed

lemma attemptOutcome_not_blank:
  "attemptOutcome env p u k = Inr body \<Longrightarrow> \<not> list_all is_ws body"
  by (auto simp: attemptOutcome_def split: fetch_result.splits dest: decodeResponse_not_blank)

lemma getprop_JNum_obj: "getprop v k = JNum n \<Longrightarrow> truthy v"
  by (cases v) auto

lemma decodeResponse_blank_raw:
  "ok r \<Longrightarrow> \<not> isWrapped p \<Longrightarrow> resp_text r = Inr body \<Longrightarrow> list_all is_ws body
     \<Longrightarrow> decodeResponse p r = Inl (Error ''Received empty response body'')"
  by (simp add: decodeResponse_def bind_e_def trim_empty_iff)

lemma decodeResponse_blank_wrapped:
  assumes "ok r" "isWrapped p" "resp_json r = Inr wrapperJson"
    "getprop (getprop wrapperJson ''status'') ''http_code'' = JNum 200"
    "getprop wrapperJson ''contents'' = JStr body" "list_all is_ws body"
  shows "decodeResponse p r = Inl (Error ''Received empty response body'')"
proof -
  from assms(4) have "truthy (getprop wrapperJson ''status'')" by (rule getprop_JNum_obj)
  moreover then have "truthy wrapperJson" by (cases wrapperJson) auto
  ultimately show ?thesis
    using assms by (simp add: decodeResponse_def bind_e_def trim_empty_iff)
qed

lemma new_events_append: "events w' = events w @ evs \<Longrightarrow> new_events w w' = evs"
  by (simp add: new_events_def)

lemmas fixture_defs = world0_def relayA_def relayB_def relayC_def response_of_def env_of_def
  env_only_B_def env_wrapped_404_def

lemma providerLoop_Cons_failed:
  assumes "attemptOutcome env p u (nfetch w) = Inl e"
  shows "\<exists>w'. providerLoop env u (p # ps) lastError w = providerLoop env u ps (Some e) w'
            \<and> events w' = events w @ [EvFetch (getUrl p u), EvDelay 1000]
            \<and> nfetch w' = Suc (nfetch w) \<and> jobs w' = jobs w
            \<and> statusMessage w' = statusMessage w \<and> isProcessing w' = isProcessing w"
  by (rule exI [of _ "delay 1000 (log (''Failed with '' @ pname p @ '':'')
      (emit (EvFetch (getUrl p u))
        ((log (''Attempting fetch via '' @ pname p @ ''...'') w)\<lparr>nfetch := Suc (nfetch w)\<rparr>)))"])
     (simp add: attempt_eq assms world_defs)

lemma providerLoop_Cons_ok:
  assumes "attemptOutcome env p u (nfetch w) = Inr body"
  shows "\<exists>w'. providerLoop env u (p # ps) lastError w = (Inr body, w')
            \<and> events w' = events w @ [EvFetch (getUrl p u)]
            \<and> nfetch w' = Suc (nfetch w) \<and> jobs w' = jobs w
            \<and> statusMessage w' = statusMessage w \<and> isProcessing w' = isProcessing w"
  by (rule exI [of _ "emit (EvFetch (getUrl p u))
        ((log (''Attempting fetch via '' @ pname p @ ''...'') w)\<lparr>nfetch := Suc (nfetch w)\<rparr>)"])
     (simp add: attempt_eq assms world_defs)

lemma providerLoop_extends:
  "\<exists>more. events (snd (providerLoop env u ps lastError w)) = events w @ more"
proof (induction ps arbitrary: lastError w)
  case Nil
  show ?case by simp
next
  case (Cons p ps)
  show ?case
  proof (cases "attemptOutcome env p u (nfetch w)")
    case (Inr body)
    from providerLoop_Cons_ok [OF this, of ps lastError] show ?thesis by auto
  next
    case (Inl e)
    from providerLoop_Cons_failed [OF this, of ps lastError] obtain w' where
      w': "providerLoop env u (p # ps) lastError w = providerLoop env u ps (Some e) w'"
          "events w' = events w @ [EvFetch (getUrl p u), EvDelay 1000]"
      by blast
    from Cons.IH [of "Some e" w'] obtain more where
      "events (snd (providerLoop env u ps (Some e) w')) = events w' @ more" by blast
    then show ?thesis unfolding w'(1) by (simp add: w'(2))
  qed
qed

lemma providerLoop_first_fetch:
  "\<exists>more. events (snd (providerLoop env u (q # rest) lastError w))
            = events w @ EvFetch (getUrl q u) # more"
proof (cases "attemptOutcome env q u (nfetch w)")
  case (Inr body)
  from providerLoop_Cons_ok [OF this, of rest lastError] show ?thesis by auto
next
  case (Inl e)
  from providerLoop_Cons_failed [OF this, of rest lastError] obtain w' where
    w': "providerLoop env u (q # rest) lastError w = providerLoop env u rest (Some e) w'"
        "events w' = events w @ [EvFetch (getUrl q u), EvDelay 1000]"
    by blast
  from providerLoop_extends [of env u rest "Some e" w'] obtain more where
    "events (snd (providerLoop env u rest (Some e) w')) = events w' @ more" by blast
  then show ?thesis unfolding w'(1) by (simp add: w'(2))
qed

lemma decodeResponse_wrapped_error:
  assumes "isWrapped p" "resp_json r = Inr wrapperJson"
    "getprop (getprop wrapperJson ''status'') ''http_code'' \<noteq> JNum 200"
  shows "isl (decodeResponse p r)"
    and "ok r \<Longrightarrow> toStringJS (optprop (optprop wrapperJson ''status'') ''http_code'') = Inr code
          \<Longrightarrow> decodeResponse p r = Inl (Error (''Wrapped proxy returned error code: '' @ code))"
  using assms
  by (auto simp: decodeResponse_def bind_e_def split: sum.splits)

lemma decodeResponse_unwrap:
  assumes "isWrapped p" "ok r" "resp_json r = Inr wrapperJson"
    "getprop (getprop wrapperJson ''status'') ''http_code'' = JNum 200"
    "getprop wrapperJson ''contents'' = JStr body" "\<not> list_all is_ws body"
  shows "decodeResponse p r = Inr body"
proof -
  from assms(4) have "truthy (getprop wrapperJson ''status'')" by (rule getprop_JNum_obj)
  moreover then have "truthy wrapperJson" by (cases wrapperJson) auto
  moreover from assms(6) have "body \<noteq> []" by auto
  ultimately show ?thesis
    using assms by (simp add: decodeResponse_def bind_e_def trim_empty_iff)
qed

lemma decodeResponse_Inr_raw:
  assumes "decodeResponse p r = Inr body"
  shows "ok r \<and> (if isWrapped p
            then \<exists>wj. resp_json r = Inr wj
                   \<and> getprop (getprop wj ''status'') ''http_code'' = JNum 200
                   \<and> getprop wj ''contents'' = JStr body
            else resp_text r = Inr body)"
proof -
  from assms have ok: "ok r" by (auto simp: decodeResponse_def split: if_splits)
  show ?thesis
  proof (cases "isWrapped p")
    case False
    with assms ok show ?thesis
      by (cases "resp_text r") (auto simp: decodeResponse_def bind_e_def split: if_splits)
  next
    case True
    with assms ok obtain wj where wj: "resp_json r = Inr wj"
      by (cases "resp_json r") (auto simp: decodeResponse_def bind_e_def)
    have c: "getprop (getprop wj ''status'') ''http_code'' = JNum 200"
      using assms ok True wj
      by (auto simp: decodeResponse_def bind_e_def split: if_splits sum.splits)
    then have "truthy (getprop wj ''status'')" by (rule getprop_JNum_obj)
    moreover then have "truthy wj" by (cases wj) auto
    ultimately have "getprop wj ''contents'' = JStr body"
      using assms ok True wj c
      by (cases "getprop wj ''contents''")
         (auto simp: decodeResponse_def bind_e_def split: if_splits)
    with wj c True ok show ?thesis by simp
  qed
qed

lemma attemptOutcome_Inr_iff:
  "attemptOutcome env p u k = Inr body \<longleftrightarrow>
     (\<exists>r. net env k (getUrl p u) = Responded r \<and> ok r \<and> \<not> list_all is_ws body
          \<and> (if isWrapped p
              then \<exists>wj. resp_json r = Inr wj
                     \<and> getprop (getprop wj ''status'') ''http_code'' = JNum 200
                     \<and> getprop wj ''contents'' = JStr body
              else resp_text r = Inr body))"
  (is "?L \<longleftrightarrow> ?R")
proof
  assume l: ?L
  then obtain r where r: "net env k (getUrl p u) = Responded r" "decodeResponse p r = Inr body"
    by (cases "net env k (getUrl p u)") (auto simp: attemptOutcome_def)
  from decodeResponse_Inr_raw [OF r(2)] decodeResponse_not_blank [OF r(2)] r(1)
  show ?R by blast
next
  assume ?R
  then obtain r where r: "net env k (getUrl p u) = Responded r" "ok r" "\<not> list_all is_ws body"
    "if isWrapped p
              then \<exists>wj. resp_json r = Inr wj
                     \<and> getprop (getprop wj ''status'') ''http_code'' = JNum 200
                     \<and> getprop wj ''contents'' = JStr body
              else resp_text r = Inr body"
    by blast
  have "decodeResponse p r = Inr body"
  proof (cases "isWrapped p")
    case True
    with r(4) obtain wj where "resp_json r = Inr wj"
      "getprop (getprop wj ''status'') ''http_code'' = JNum 200"
      "getprop wj ''contents'' = JStr body" by auto
    from decodeResponse_unwrap [OF True r(2) this r(3)] show ?thesis .
  next
    case False
    with r(4) have t: "resp_text r = Inr body" by simp
    from r(3) have "body \<noteq> []" by auto
    with r(2,3) False t show ?thesis
      by (simp add: decodeResponse_def bind_e_def trim_empty_iff)
  qed
  with r(1) show ?L by (simp add: attemptOutcome_def)
qed

lemma attemptOutcome_failures:
  "net env k (getUrl p u) = Rejected e \<Longrightarrow> attemptOutcome env p u k = Inl e"
  "net env k (getUrl p u) = Responded r \<Longrightarrow> \<not> ok r \<Longrightarrow> attemptOutcome env p u k
     = Inl (Error (''Proxy '' @ pname p @ '' returned status '' @ string_of_nat (resp_status r)))"
  by (simp_all add: attemptOutcome_def decodeResponse_def)

lemma fetchText_run_success:
  assumes u: "u = urlWithCacheBuster targetUrl (date_now env (nfetch w))"
    and f: "\<forall>i<length pre. isl (attemptOutcome env (pre ! i) u (nfetch w + i))"
    and s: "attemptOutcome env p u (nfetch w + length pre) = Inr body"
  shows "fst (fetchTextWithFallback env (pre @ p # post) targetUrl w) = Inr body"
    and "new_events w (snd (fetchTextWithFallback env (pre @ p # post) targetUrl w))
           = attempt_events u pre @ [EvFetch (getUrl p u)]"
proof -
  from providerLoop_failed_prefix [OF f, of "p # post" None] obtain w1 where
    w1: "providerLoop env u (pre @ p # post) None w
           = providerLoop env u (p # post)
               (if pre = [] then None
                else Some (projl (attemptOutcome env (last pre) u (nfetch w + length pre - 1)))) w1"
        "events w1 = events w @ attempt_events u pre" "nfetch w1 = nfetch w + length pre"
    by blast
  from s w1(3) have ok: "attemptOutcome env p u (nfetch w1) = Inr body" by simp
  have run: "fetchTextWithFallback env (pre @ p # post) targetUrl w
      = (Inr body, emit (EvFetch (getUrl p u))
           ((log (''Attempting fetch via '' @ pname p @ ''...'') w1)\<lparr>nfetch := Suc (nfetch w1)\<rparr>))"
    using w1(1) ok by (simp add: fetchTextWithFallback_def u [symmetric] attempt_eq)
  show "fst (fetchTextWithFallback env (pre @ p # post) targetUrl w) = Inr body"
    by (simp add: run)
  show "new_events w (snd (fetchTextWithFallback env (pre @ p # post) targetUrl w))
          = attempt_events u pre @ [EvFetch (getUrl p u)]"
    by (rule new_events_append) (simp add: run w1(2) world_defs)
qed

lemma fetchText_run_failure:
  assumes u: "u = urlWithCacheBuster targetUrl (date_now env (nfetch w))"
    and f: "\<forall>i<length providers. isl (attemptOutcome env (providers ! i) u (nfetch w + i))"
  shows "fst (fetchTextWithFallback env providers targetUrl w)
          = Inl (if providers = [] then Error ''All proxies failed to retrieve data.''
                 else projl (attemptOutcome env (last providers) u (nfetch w + length providers - 1)))"
    and "new_events w (snd (fetchTextWithFallback env providers targetUrl w))
          = attempt_events u providers"
proof -
  from providerLoop_failed_prefix [OF f, of "[]" None] obtain w1 where
    w1: "providerLoop env u (providers @ []) None w
           = providerLoop env u []
               (if providers = [] then None
                else Some (projl (attemptOutcome env (last providers) u (nfetch w + length providers - 1)))) w1"
        "events w1 = events w @ attempt_events u providers"
    by blast
  then have run: "fetchTextWithFallback env providers targetUrl w
      = (Inl (if providers = [] then Error ''All proxies failed to retrieve data.''
              else projl (attemptOutcome env (last providers) u (nfetch w + length providers - 1))), w1)"
    by (simp add: fetchTextWithFallback_def u [symmetric])
  show "fst (fetchTextWithFallback env providers targetUrl w)
          = Inl (if providers = [] then Error ''All proxies failed to retrieve data.''
                 else projl (attemptOutcome env (last providers) u (nfetch w + length providers - 1)))"
    by (simp add: run)
  show "new_events w (snd (fetchTextWithFallback env providers targetUrl w))
          = attempt_events u providers"
    by (rule new_events_append) (simp add: run w1(2))
qed

text \<open>
  Claim C1. The requests of \<open>fetchTextWithFallback\<close> all carry the same URL \<open>u\<close>, the
  target with the cache buster of the call, and the \<open>i\<close>-th request made goes to the
  \<open>i\<close>-th provider of the list. What the relays answer decides the result:

    \<^item> when the answer to every provider of \<open>pre\<close> is a rejected request or a status that
      is no success, and the next provider \<open>p\<close>, not a wrapped one, answers with a success
      status and a text \<open>body\<close> that is not blank, the result is that text \<open>body\<close>, and
      the requests made are those through \<open>pre\<close>, each followed by the pacing delay of
      one second, and the one through \<open>p\<close>: none goes to a later provider;
    \<^item> in general an attempt succeeds with \<open>body\<close> exactly when the request is answered,
      the status is a success, \<open>body\<close> is not empty and not only white space, and
      \<open>body\<close> is the text of the answer, or for a wrapped provider the \<open>contents\<close> of a
      wrapper whose embedded code is 200; a rejected request fails with its own error and a
      status that is no success fails with the error naming the provider and the status;
    \<^item> when the attempts through \<open>pre\<close> fail and the one through \<open>p\<close> succeeds, the
      result and the requests are as in the first item, whatever the reasons of the
      failures;
    \<^item> when every attempt fails, the error raised is the failure of the last provider (the
      generic error for an empty list) and each provider has been tried exactly once;
    \<^item> a body that is empty or only white space is a failed attempt also on a success
      status, for a raw and for an unwrapped answer.
\<close>

theorem fetchText_first_success:
  assumes "u = urlWithCacheBuster targetUrl (date_now env (nfetch w))"
  shows "((\<forall>i<length pre.
             (\<exists>e. net env (nfetch w + i) (getUrl (pre ! i) u) = Rejected e)
             \<or> (\<exists>a. net env (nfetch w + i) (getUrl (pre ! i) u) = Responded a \<and> \<not> ok a))
          \<and> net env (nfetch w + length pre) (getUrl p u) = Responded r
          \<and> ok r \<and> \<not> isWrapped p \<and> resp_text r = Inr body \<and> \<not> list_all is_ws body
          \<longrightarrow> fst (fetchTextWithFallback env (pre @ p # post) targetUrl w) = Inr body
              \<and> new_events w (snd (fetchTextWithFallback env (pre @ p # post) targetUrl w))
                  = concat (map (\<lambda>q. [EvFetch (getUrl q u), EvDelay 1000]) pre)
                    @ [EvFetch (getUrl p u)])
       \<and> (attemptOutcome env p u k = Inr body \<longleftrightarrow>
            (\<exists>a. net env k (getUrl p u) = Responded a \<and> ok a \<and> \<not> list_all is_ws body
                \<and> (if isWrapped p
                    then \<exists>wj. resp_json a = Inr wj
                           \<and> getprop (getprop wj ''status'') ''http_code'' = JNum 200
                           \<and> getprop wj ''contents'' = JStr body
                    else resp_text a = Inr body)))
       \<and> (net env k (getUrl p u) = Rejected e \<longrightarrow> attemptOutcome env p u k = Inl e)
       \<and> (net env k (getUrl p u) = Responded r \<and> \<not> ok r
          \<longrightarrow> attemptOutcome env p u k
                = Inl (Error (''Proxy '' @ pname p @ '' returned status ''
                              @ string_of_nat (resp_status r))))
       \<and> (providers = pre @ p # post
          \<and> (\<forall>i<length pre. isl (attemptOutcome env (pre ! i) u (nfetch w + i)))
          \<and> attemptOutcome env p u (nfetch w + length pre) = Inr body
          \<longrightarrow> fst (fetchTextWithFallback env providers targetUrl w) = Inr body
              \<and> \<not> list_all is_ws body
              \<and> new_events w (snd (fetchTextWithFallback env providers targetUrl w))
                  = attempt_events u pre @ [EvFetch (getUrl p u)])
       \<and> ((\<forall>i<length providers. isl (attemptOutcome env (providers ! i) u (nfetch w + i)))
          \<longrightarrow> fst (fetchTextWithFallback env providers targetUrl w)
                = Inl (if providers = [] then Error ''All proxies failed to retrieve data.''
                       else projl (attemptOutcome env (last providers) u
                                     (nfetch w + length providers - 1)))
              \<and> new_events w (snd (fetchTextWithFallback env providers targetUrl w))
                  = attempt_events u providers)
       \<and> (ok r \<and> list_all is_ws body
            \<and> (if isWrapped p
                then resp_json r = Inr wrapperJson
                     \<and> getprop (getprop wrapperJson ''status'') ''http_code'' = JNum 200
                     \<and> getprop wrapperJson ''contents'' = JStr body
                else resp_text r = Inr body)
          \<longrightarrow> decodeResponse p r = Inl (Error ''Received empty response body''))"
proof -
  have raw: "fst (fetchTextWithFallback env (pre @ p # post) targetUrl w) = Inr body
      \<and> new_events w (snd (fetchTextWithFallback env (pre @ p # post) targetUrl w))
          = concat (map (\<lambda>q. [EvFetch (getUrl q u), EvDelay 1000]) pre) @ [EvFetch (getUrl p u)]"
    if a: "(\<forall>i<length pre.
             (\<exists>e. net env (nfetch w + i) (getUrl (pre ! i) u) = Rejected e)
             \<or> (\<exists>a. net env (nfetch w + i) (getUrl (pre ! i) u) = Responded a \<and> \<not> ok a))
          \<and> net env (nfetch w + length pre) (getUrl p u) = Responded r
          \<and> ok r \<and> \<not> isWrapped p \<and> resp_text r = Inr body \<and> \<not> list_all is_ws body"
  proof -
    have f: "\<forall>i<length pre. isl (attemptOutcome env (pre ! i) u (nfetch w + i))"
    proof (intro allI impI)
      fix i assume "i < length pre"
      with a have "(\<exists>e. net env (nfetch w + i) (getUrl (pre ! i) u) = Rejected e)
             \<or> (\<exists>a. net env (nfetch w + i) (getUrl (pre ! i) u) = Responded a \<and> \<not> ok a)"
        by blast
      then show "isl (attemptOutcome env (pre ! i) u (nfetch w + i))"
        using attemptOutcome_failures [of env "nfetch w + i" "pre ! i" u] by auto
    qed
    from a have "\<exists>a. net env (nfetch w + length pre) (getUrl p u) = Responded a \<and> ok a
        \<and> \<not> list_all is_ws body
        \<and> (if isWrapped p
            then \<exists>wj. resp_json a = Inr wj
                   \<and> getprop (getprop wj ''status'') ''http_code'' = JNum 200
                   \<and> getprop wj ''contents'' = JStr body
            else resp_text a = Inr body)"
      by auto
    then have s: "attemptOutcome env p u (nfetch w + length pre) = Inr body"
      by (simp only: attemptOutcome_Inr_iff)
    from fetchText_run_success [OF assms f s, of post] show ?thesis
      by (simp add: attempt_events_def)
  qed
  have general: "fst (fetchTextWithFallback env providers targetUrl w) = Inr body
              \<and> \<not> list_all is_ws body
              \<and> new_events w (snd (fetchTextWithFallback env providers targetUrl w))
                  = attempt_events u pre @ [EvFetch (getUrl p u)]"
    if a: "providers = pre @ p # post
          \<and> (\<forall>i<length pre. isl (attemptOutcome env (pre ! i) u (nfetch w + i)))
          \<and> attemptOutcome env p u (nfetch w + length pre) = Inr body"
  proof -
    from a have f: "\<forall>i<length pre. isl (attemptOutcome env (pre ! i) u (nfetch w + i))"
      and s: "attemptOutcome env p u (nfetch w + length pre) = Inr body"
      and p: "providers = pre @ p # post" by simp_all
    from fetchText_run_success [OF assms f s, of post] attemptOutcome_not_blank [OF s]
    show ?thesis unfolding p by simp
  qed
  have blank: "decodeResponse p r = Inl (Error ''Received empty response body'')"
    if "ok r \<and> list_all is_ws body
            \<and> (if isWrapped p
                then resp_json r = Inr wrapperJson
                     \<and> getprop (getprop wrapperJson ''status'') ''http_code'' = JNum 200
                     \<and> getprop wrapperJson ''contents'' = JStr body
                else resp_text r = Inr body)"
    using that decodeResponse_blank_raw decodeResponse_blank_wrapped
    by (cases "isWrapped p") auto
  show ?thesis
    apply (intro conjI)
    subgoal by (rule impI) (rule raw)
    subgoal by (rule attemptOutcome_Inr_iff)
    subgoal by (rule impI) (rule attemptOutcome_failures(1))
    subgoal by (rule impI, erule conjE) (rule attemptOutcome_failures(2))
    subgoal by (rule impI) (rule general)
    subgoal by (rule impI, rule conjI)
        (rule fetchText_run_failure(1) [OF assms], assumption,
         rule fetchText_run_failure(2) [OF assms], assumption)
    subgoal by (rule impI) (rule blank)
    done
qed

theorem fetchText_first_success_witness:
  "fst (fetchTextWithFallback env_only_B [relayA, relayB, relayC] ''t'' world0) = Inr ''X''
   \<and> new_events world0 (snd (fetchTextWithFallback env_only_B [relayA, relayB, relayC] ''t'' world0))
       = [EvFetch ''a/t?__t=0'', EvDelay 1000, EvFetch ''b/t?__t=0'']
   \<and> fst (fetchTextWithFallback env_only_B [relayA, relayC] ''t'' world0)
       = Inl (Error ''Proxy C returned status 503'')
   \<and> decodeResponse relayA
        \<lparr>ok = True, resp_status = 200, resp_text = Inr '' '', resp_json = Inr JNull\<rparr>
       = Inl (Error ''Received empty response body'')"
proof -
  have s0: "string_of_nat 0 = ''0''" by code_simp
  have s503: "string_of_nat 503 = ''503''" by code_simp
  have u: "''t?__t=0'' = urlWithCacheBuster ''t'' (date_now env_only_B (nfetch world0))"
    by (simp add: urlWithCacheBuster_def fixture_defs env_only_B_def startsWith_def s0)
  have n: "nfetch world0 = 0" by (simp add: world0_def)
  have ws: "list_all is_ws '' ''" by (simp add: is_ws_def)
  have x: "\<not> list_all is_ws ''X''" by (simp add: is_ws_def)
  define bad where "bad = \<lparr>ok = False, resp_status = 503, resp_text = Inr [],
      resp_json = Inl (Error ''Unexpected end of JSON input'')\<rparr>"
  define good where "good = \<lparr>ok = True, resp_status = 200, resp_text = Inr ''X'',
      resp_json = Inl (Error ''Unexpected token X'')\<rparr>"
  have bad: "\<not> ok bad" "resp_status bad = 503" by (simp_all add: bad_def)
  have good: "ok good" "resp_text good = Inr ''X''" by (simp_all add: good_def)
  have na: "net env_only_B 0 (getUrl relayA ''t?__t=0'') = Responded bad"
    by (simp add: fixture_defs env_only_B_def startsWith_def bad_def)
  have nb: "net env_only_B 1 (getUrl relayB ''t?__t=0'') = Responded good"
    by (simp add: fixture_defs env_only_B_def startsWith_def good_def)
  have nc: "net env_only_B 1 (getUrl relayC ''t?__t=0'') = Responded bad"
    by (simp add: fixture_defs env_only_B_def startsWith_def bad_def)
  have unwrapped: "\<not> isWrapped relayB" by (simp add: relayB_def)
  have names: "pname relayA = ''A''" "pname relayC = ''C''" by (simp_all add: relayA_def relayC_def)
  have urls: "getUrl relayA ''t?__t=0'' = ''a/t?__t=0''" "getUrl relayB ''t?__t=0'' = ''b/t?__t=0''"
    by (simp_all add: relayA_def relayB_def)
  have h1: "(\<forall>i<length [relayA].
             (\<exists>e. net env_only_B (nfetch world0 + i) (getUrl ([relayA] ! i) ''t?__t=0'') = Rejected e)
             \<or> (\<exists>a. net env_only_B (nfetch world0 + i) (getUrl ([relayA] ! i) ''t?__t=0'')
                       = Responded a \<and> \<not> ok a))
          \<and> net env_only_B (nfetch world0 + length [relayA]) (getUrl relayB ''t?__t=0'') = Responded good
          \<and> ok good \<and> \<not> isWrapped relayB \<and> resp_text good = Inr ''X'' \<and> \<not> list_all is_ws ''X''"
    using na nb bad good unwrapped x by (simp add: n)
  from fetchText_first_success [OF u, where pre = "[relayA]" and p = relayB and r = good
      and body = "''X''" and post = "[relayC]", THEN conjunct1, THEN mp, OF h1]
  have first: "fst (fetchTextWithFallback env_only_B [relayA, relayB, relayC] ''t'' world0) = Inr ''X''"
    "new_events world0 (snd (fetchTextWithFallback env_only_B [relayA, relayB, relayC] ''t'' world0))
       = [EvFetch ''a/t?__t=0'', EvDelay 1000, EvFetch ''b/t?__t=0'']"
    by (simp_all add: urls)
  from fetchText_first_success [OF u, where p = relayA and r = bad and k = 0,
      THEN conjunct2, THEN conjunct2, THEN conjunct2, THEN conjunct1, THEN mp, OF conjI, OF na bad(1)]
  have a: "attemptOutcome env_only_B relayA ''t?__t=0'' 0 = Inl (Error ''Proxy A returned status 503'')"
    by (simp add: names bad(2) s503)
  from fetchText_first_success [OF u, where p = relayC and r = bad and k = 1,
      THEN conjunct2, THEN conjunct2, THEN conjunct2, THEN conjunct1, THEN mp, OF conjI, OF nc bad(1)]
  have c: "attemptOutcome env_only_B relayC ''t?__t=0'' 1 = Inl (Error ''Proxy C returned status 503'')"
    by (simp add: names bad(2) s503)
  have h2: "\<forall>i<length [relayA, relayC].
      isl (attemptOutcome env_only_B ([relayA, relayC] ! i) ''t?__t=0'' (nfetch world0 + i))"
    using a c by (simp add: n less_Suc_eq numeral_2_eq_2)
  from fetchText_first_success [OF u, where providers = "[relayA, relayC]",
      THEN conjunct2, THEN conjunct2, THEN conjunct2, THEN conjunct2, THEN conjunct2,
      THEN conjunct1, THEN mp, OF h2, THEN conjunct1]
  have last: "fst (fetchTextWithFallback env_only_B [relayA, relayC] ''t'' world0)
       = Inl (Error ''Proxy C returned status 503'')"
    using c by (simp add: n)
  have h3: "ok \<lparr>ok = True, resp_status = 200, resp_text = Inr '' '', resp_json = Inr JNull\<rparr>
      \<and> list_all is_ws '' ''
      \<and> (if isWrapped relayA
          then resp_json \<lparr>ok = True, resp_status = 200, resp_text = Inr '' '', resp_json = Inr JNull\<rparr>
                 = Inr JNull
               \<and> getprop (getprop JNull ''status'') ''http_code'' = JNum 200
               \<and> getprop JNull ''contents'' = JStr '' ''
          else resp_text \<lparr>ok = True, resp_status = 200, resp_text = Inr '' '', resp_json = Inr JNull\<rparr>
                 = Inr '' '')"
    using ws by (simp add: relayA_def)
  from fetchText_first_success [OF u, where p = relayA and body = "'' ''" and wrapperJson = JNull
      and r = "\<lparr>ok = True, resp_status = 200, resp_text = Inr '' '', resp_json = Inr JNull\<rparr>",
      THEN conjunct2, THEN conjunct2, THEN conjunct2, THEN conjunct2, THEN conjunct2,
      THEN conjunct2, THEN mp, OF h3]
  have blank: "decodeResponse relayA
        \<lparr>ok = True, resp_status = 200, resp_text = Inr '' '', resp_json = Inr JNull\<rparr>
       = Inl (Error ''Received empty response body'')" .
  from first last blank show ?thesis by (intro conjI)
qed

text \<open>
  Claim C6. For a wrapped provider whose envelope carries an embedded status code other
  than the number 200, the attempt fails (with the message naming the code, when the HTTP
  status is a success) and the loop goes on to the next provider after the pacing delay; an
  envelope with code 200 is unwrapped to its \<open>contents\<close>.
\<close>

theorem wrapped_error_code_fails_attempt:
  "(isWrapped p \<and> net env (nfetch w) (getUrl p u) = Responded r
      \<and> resp_json r = Inr wrapperJson
      \<and> getprop (getprop wrapperJson ''status'') ''http_code'' \<noteq> JNum 200
     \<longrightarrow> isl (fst (attempt env p u w))
         \<and> (ok r \<and> toStringJS (optprop (optprop wrapperJson ''status'') ''http_code'') = Inr code
              \<longrightarrow> fst (attempt env p u w)
                    = Inl (Error (''Wrapped proxy returned error code: '' @ code)))
         \<and> take 3 (new_events w (snd (providerLoop env u (p # q # rest) lastError w)))
             = [EvFetch (getUrl p u), EvDelay 1000, EvFetch (getUrl q u)])
   \<and> (isWrapped p \<and> net env (nfetch w) (getUrl p u) = Responded r \<and> ok r
      \<and> resp_json r = Inr wrapperJson
      \<and> getprop (getprop wrapperJson ''status'') ''http_code'' = JNum 200
      \<and> getprop wrapperJson ''contents'' = JStr body \<and> \<not> list_all is_ws body
     \<longrightarrow> fst (attempt env p u w) = Inr body)"
proof (intro conjI impI)
  assume a: "isWrapped p \<and> net env (nfetch w) (getUrl p u) = Responded r
      \<and> resp_json r = Inr wrapperJson
      \<and> getprop (getprop wrapperJson ''status'') ''http_code'' \<noteq> JNum 200"
  then have o: "attemptOutcome env p u (nfetch w) = decodeResponse p r"
    by (simp add: attemptOutcome_def)
  from a have f: "isl (decodeResponse p r)"
    by (intro decodeResponse_wrapped_error(1)) auto
  then show "isl (fst (attempt env p u w))" by (simp add: attempt_eq o)
  from f obtain e where e: "decodeResponse p r = Inl e"
    by (cases "decodeResponse p r") auto
  from providerLoop_Cons_failed [of env p u w e "q # rest" lastError] o e obtain w' where
    w': "providerLoop env u (p # q # rest) lastError w = providerLoop env u (q # rest) (Some e) w'"
        "events w' = events w @ [EvFetch (getUrl p u), EvDelay 1000]"
    by auto
  from providerLoop_first_fetch [of env u q rest "Some e" w'] obtain more where
    "events (snd (providerLoop env u (q # rest) (Some e) w')) = events w' @ EvFetch (getUrl q u) # more"
    by blast
  then have "events (snd (providerLoop env u (p # q # rest) lastError w))
      = events w @ [EvFetch (getUrl p u), EvDelay 1000, EvFetch (getUrl q u)] @ more"
    unfolding w'(1) by (simp add: w'(2))
  from new_events_append [OF this]
  show "take 3 (new_events w (snd (providerLoop env u (p # q # rest) lastError w)))
             = [EvFetch (getUrl p u), EvDelay 1000, EvFetch (getUrl q u)]"
    by simp
next
  assume a: "isWrapped p \<and> net env (nfetch w) (getUrl p u) = Responded r
      \<and> resp_json r = Inr wrapperJson
      \<and> getprop (getprop wrapperJson ''status'') ''http_code'' \<noteq> JNum 200"
    and b: "ok r \<and> toStringJS (optprop (optprop wrapperJson ''status'') ''http_code'') = Inr code"
  then have o: "attemptOutcome env p u (nfetch w) = decodeResponse p r"
    by (simp add: attemptOutcome_def)
  from a b have "decodeResponse p r = Inl (Error (''Wrapped proxy returned error code: '' @ code))"
    by (intro decodeResponse_wrapped_error(2)) auto
  then show "fst (attempt env p u w) = Inl (Error (''Wrapped proxy returned error code: '' @ code))"
    by (simp add: attempt_eq o)
next
  assume a: "isWrapped p \<and> net env (nfetch w) (getUrl p u) = Responded r \<and> ok r
      \<and> resp_json r = Inr wrapperJson
      \<and> getprop (getprop wrapperJson ''status'') ''http_code'' = JNum 200
      \<and> getprop wrapperJson ''contents'' = JStr body \<and> \<not> list_all is_ws body"
  then have o: "attemptOutcome env p u (nfetch w) = decodeResponse p r"
    by (simp add: attemptOutcome_def)
  from a have "decodeResponse p r = Inr body"
    by (intro decodeResponse_unwrap) auto
  then show "fst (attempt env p u w) = Inr body"
    by (simp add: attempt_eq o)
qed

theorem wrapped_error_code_fails_attempt_witness:
  "fst (attempt env_wrapped_404 (hd (PROXY_PROVIDERS env_wrapped_404)) ''t'' world0)
     = Inl (Error ''Wrapped proxy returned error code: 404'')
   \<and> take 3 (new_events world0
        (snd (providerLoop env_wrapped_404 ''t'' (PROXY_PROVIDERS env_wrapped_404) None world0)))
     = [EvFetch ''https://api.allorigins.win/get?url=t'', EvDelay 1000,
        EvFetch ''https://api.codetabs.com/v1/proxy?quest=t'']"
proof -
  let ?p = "\<lparr>pname = ''allorigins-wrapped'',
       getUrl = (\<lambda>target. ''https://api.allorigins.win/get?url='' @ encodeURIComponent env_wrapped_404 target),
       isWrapped = True\<rparr>"
  let ?q = "\<lparr>pname = ''codetabs'',
       getUrl = (\<lambda>target. ''https://api.codetabs.com/v1/proxy?quest='' @ encodeURIComponent env_wrapped_404 target),
       isWrapped = False\<rparr>"
  let ?c = "\<lparr>pname = ''corsproxy.io'',
       getUrl = (\<lambda>target. ''https://corsproxy.io/?'' @ encodeURIComponent env_wrapped_404 target),
       isWrapped = False\<rparr>"
  let ?wj = "JObj [(''contents'', JStr ''Not Found''), (''status'', JObj [(''http_code'', JNum 404)])]"
  let ?r = "\<lparr>ok = True, resp_status = 200, resp_text = Inr ''{}'', resp_json = Inr ?wj\<rparr>"
  have ps: "PROXY_PROVIDERS env_wrapped_404 = [?p, ?q, ?c]"
    by (simp add: PROXY_PROVIDERS_def)
  have s404: "string_of_int 404 = ''404''" by code_simp
  have h: "isWrapped ?p" "net env_wrapped_404 (nfetch world0) (getUrl ?p ''t'') = Responded ?r"
    "resp_json ?r = Inr ?wj" "getprop (getprop ?wj ''status'') ''http_code'' \<noteq> JNum 200"
    "ok ?r" "toStringJS (optprop (optprop ?wj ''status'') ''http_code'') = Inr ''404''"
    by (simp_all add: fixture_defs optprop_def s404)
  have g: "getUrl ?p ''t'' = ''https://api.allorigins.win/get?url=t''"
    "getUrl ?q ''t'' = ''https://api.codetabs.com/v1/proxy?quest=t''"
    by (simp_all add: fixture_defs)
  from wrapped_error_code_fails_attempt
         [of ?p env_wrapped_404 world0 "''t''" ?r ?wj "''404''" ?q "[?c]" None "[]"] h
  have "fst (attempt env_wrapped_404 ?p ''t'' world0)
          = Inl (Error (''Wrapped proxy returned error code: '' @ ''404''))"
    "take 3 (new_events world0 (snd (providerLoop env_wrapped_404 ''t'' [?p, ?q, ?c] None world0)))
       = [EvFetch (getUrl ?p ''t''), EvDelay 1000, EvFetch (getUrl ?q ''t'')]"
    by blast+
  then show ?thesis
    unfolding ps g by (simp del: providerLoop.simps)
qed

section \<open>The job queue and the archive\<close>

lemma providerLoop_frame:
  "\<exists>new. transported w new (snd (providerLoop env u ps lastError w))
         \<and> list_all (\<lambda>e. e = EvDelay 1000 \<or> (\<exists>p\<in>set ps. e = EvFetch (getUrl p u))) new
         \<and> (ps \<noteq> [] \<longrightarrow> (\<exists>more. new = EvFetch (getUrl (hd ps) u) # more))"
proof (induction ps arbitrary: lastError w)
  case Nil
  show ?case by (simp add: transported_def)
next
  case (Cons p ps)
  show ?case
  proof (cases "attemptOutcome env p u (nfetch w)")
    case (Inr body)
    from providerLoop_Cons_ok [OF this, of ps lastError] obtain w' where
      w': "providerLoop env u (p # ps) lastError w = (Inr body, w')"
          "events w' = events w @ [EvFetch (getUrl p u)]" "jobs w' = jobs w"
          "statusMessage w' = statusMessage w" "isProcessing w' = isProcessing w"
      by blast
    show ?thesis
      unfolding w'(1)
      by (rule exI [of _ "[EvFetch (getUrl p u)]"]) (simp add: transported_def w')
  next
    case (Inl e)
    from providerLoop_Cons_failed [OF this, of ps lastError] obtain w' where
      w': "providerLoop env u (p # ps) lastError w = providerLoop env u ps (Some e) w'"
          "events w' = events w @ [EvFetch (getUrl p u), EvDelay 1000]" "jobs w' = jobs w"
          "statusMessage w' = statusMessage w" "isProcessing w' = isProcessing w"
      by blast
    from Cons.IH [of w' "Some e"] obtain new where
      new: "transported w' new (snd (providerLoop env u ps (Some e) w'))"
           "list_all (\<lambda>e. e = EvDelay 1000 \<or> (\<exists>p\<in>set ps. e = EvFetch (getUrl p u))) new"
      by blast
    show ?thesis
      unfolding w'(1)
      apply (rule exI [of _ "[EvFetch (getUrl p u), EvDelay 1000] @ new"])
      using new by (auto simp: transported_def w' list_all_iff)
  qed
qed

lemma PROXY_PROVIDERS_nonempty: "PROXY_PROVIDERS env \<noteq> []"
  by (simp add: PROXY_PROVIDERS_def)

lemma fetchText_frame:
  "\<exists>new. transported w new (snd (fetchTextWithFallback env (PROXY_PROVIDERS env) target w))
         \<and> relay_events env target new"
proof -
  let ?u = "urlWithCacheBuster target (date_now env (nfetch w))"
  from providerLoop_frame [of w env ?u "PROXY_PROVIDERS env" None] PROXY_PROVIDERS_nonempty
  obtain new more where
    new: "transported w new (snd (providerLoop env ?u (PROXY_PROVIDERS env) None w))"
         "list_all (\<lambda>e. e = EvDelay 1000
             \<or> (\<exists>p\<in>set (PROXY_PROVIDERS env). e = EvFetch (getUrl p ?u))) new"
         "new = EvFetch (getUrl (hd (PROXY_PROVIDERS env)) ?u) # more"
    by blast
  from new(2) have "list_all (relay_event env target) new"
    unfolding list_all_iff relay_event_def by blast
  with new(1,3) show ?thesis
    unfolding fetchTextWithFallback_def relay_events_def by blast
qed

lemma transported_log: "transported w new (log line w') \<longleftrightarrow> transported w new w'"
  by (simp add: transported_def log_def)

lemma fetchMatchData_frame:
  "\<exists>new. transported w new (snd (fetchMatchData env i kind w))
         \<and> relay_events env (matchDataUrl i kind) new"
proof -
  from fetchText_frame [of w env "matchDataUrl i kind"] obtain new where
    new: "transported w new (snd (fetchTextWithFallback env (PROXY_PROVIDERS env) (matchDataUrl i kind) w))"
         "relay_events env (matchDataUrl i kind) new"
    by blast
  have "transported w new (snd (fetchMatchData env i kind w))"
    using new(1)
    by (auto simp: fetchMatchData_def Let_def transported_log split: prod.splits sum.splits)
  with new(2) show ?thesis by blast
qed

lemma fetchResultsPage_frame:
  "\<exists>new. transported w new (snd (fetchResultsPage env pageUrl w))
         \<and> relay_events env pageUrl new"
proof -
  from fetchText_frame [of w env pageUrl] obtain new where
    new: "transported w new (snd (fetchTextWithFallback env (PROXY_PROVIDERS env) pageUrl w))"
         "relay_events env pageUrl new"
    by blast
  have "transported w new (snd (fetchResultsPage env pageUrl w))"
    using new(1)
    by (auto simp: fetchResultsPage_def transported_log split: prod.splits sum.splits)
  with new(2) show ?thesis by blast
qed

lemmas job_update_defs = job_downloading_def job_stats_done_def job_completed_def job_failed_def
  mark_def

lemma job_update_funs:
  "job_downloading job = map (\<lambda>j. if job_id j = job_id job then j\<lparr>status := DOWNLOADING_JSON\<rparr> else j)"
  "job_stats_done job = map (\<lambda>j. if job_id j = job_id job then j\<lparr>statsFileDownloaded := True\<rparr> else j)"
  "job_completed job = map (\<lambda>j. if job_id j = job_id job
                                   then j\<lparr>movesFileDownloaded := True, status := COMPLETED\<rparr> else j)"
  by (rule ext, simp add: job_update_defs)+

lemma setJobs_fields:
  "events (setJobs f w) = events w @ [EvSetJobs (f (jobs w))]" "jobs (setJobs f w) = f (jobs w)"
  "statusMessage (setJobs f w) = statusMessage w" "isProcessing (setJobs f w) = isProcessing w"
  "nfetch (setJobs f w) = nfetch w"
  by (simp_all add: world_defs)

lemma processJob_catch_fields:
  "events (processJob_catch job e w) = events w @ [EvSetJobs (job_failed job e (jobs w))]"
  "jobs (processJob_catch job e w) = job_failed job e (jobs w)"
  "statusMessage (processJob_catch job e w) = statusMessage w"
  "isProcessing (processJob_catch job e w) = isProcessing w"
  by (simp_all add: processJob_catch_def world_defs job_update_defs)

lemma processJob_outcomes:
  fixes env job w
  defines "a \<equiv> job_downloading job (jobs w)"
  defines "b \<equiv> job_stats_done job a"
  defines "r \<equiv> processJob env job w"
  shows "statusMessage (snd r) = statusMessage w \<and> isProcessing (snd r) = isProcessing w
    \<and> (\<exists>S. relay_events env (matchDataUrl (job_id job) Stats) S
         \<and> ((\<exists>e. fst r = None
                  \<and> fst (fetchMatchData env (job_id job) Stats
                           (setJobs (\<lambda>js. job_downloading job js) w)) = Inl e
                  \<and> events (snd r) = events w @ EvSetJobs a # S @ [EvSetJobs (job_failed job e a)]
                  \<and> jobs (snd r) = job_failed job e a)
            \<or> (\<exists>M. relay_events env (matchDataUrl (job_id job) Moves) M
                  \<and> ((\<exists>e. fst r = None
                           \<and> events (snd r) = events w @ EvSetJobs a # S
                                @ [EvSetJobs b, EvDelay 500] @ M @ [EvSetJobs (job_failed job e b)]
                           \<and> jobs (snd r) = job_failed job e b)
                     \<or> (\<exists>s m. fst r = Some (s, m)
                           \<and> events (snd r) = events w @ EvSetJobs a # S
                                @ [EvSetJobs b, EvDelay 500] @ M @ [EvSetJobs (job_completed job b)]
                           \<and> jobs (snd r) = job_completed job b)))))"
proof -
  define w1 where "w1 = setJobs (\<lambda>js. job_downloading job js) w"
  obtain r1 w2 where f1: "fetchMatchData env (job_id job) Stats w1 = (r1, w2)"
    by (cases "fetchMatchData env (job_id job) Stats w1")
  from fetchMatchData_frame [of w1 env "job_id job" Stats] f1 obtain S where
    S: "transported w1 S w2" "relay_events env (matchDataUrl (job_id job) Stats) S"
    by auto
  have w2: "events w2 = events w @ EvSetJobs a # S" "jobs w2 = a"
    "statusMessage w2 = statusMessage w" "isProcessing w2 = isProcessing w"
    using S(1) by (simp_all add: transported_def w1_def setJobs_fields a_def)
  have unfold1: "processJob env job w =
     (case (r1, w2) of
           (Inl error, w2) \<Rightarrow> (None, processJob_catch job error w2)
         | (Inr statsData, w2) \<Rightarrow>
             (let w3 = setJobs (\<lambda>js. job_stats_done job js) w2;
                  w4 = delay 500 w3
              in case fetchMatchData env (job_id job) Moves w4 of
                   (Inl error, w5) \<Rightarrow> (None, processJob_catch job error w5)
                 | (Inr movesData, w5) \<Rightarrow>
                     (Some (statsData, movesData),
                      setJobs (\<lambda>js. job_completed job js) w5)))"
    unfolding job_update_funs by (simp add: processJob_def f1 [symmetric] w1_def job_update_funs)
  show ?thesis
  proof (cases r1)
    case (Inl e)
    then have run: "r = (None, processJob_catch job e w2)"
      by (simp add: r_def unfold1)
    have "fst (fetchMatchData env (job_id job) Stats
                 (setJobs (\<lambda>js. job_downloading job js) w)) = Inl e"
      using f1 Inl by (simp add: w1_def)
    then show ?thesis
      using S(2) by (auto simp: run processJob_catch_fields w2)
  next
    case (Inr statsData)
    define w4 where "w4 = delay 500 (setJobs (\<lambda>js. job_stats_done job js) w2)"
    obtain r2 w5 where f2: "fetchMatchData env (job_id job) Moves w4 = (r2, w5)"
      by (cases "fetchMatchData env (job_id job) Moves w4")
    from fetchMatchData_frame [of w4 env "job_id job" Moves] f2 obtain M where
      M: "transported w4 M w5" "relay_events env (matchDataUrl (job_id job) Moves) M"
      by auto
    have w5: "events w5 = events w @ EvSetJobs a # S @ [EvSetJobs b, EvDelay 500] @ M"
      "jobs w5 = b" "statusMessage w5 = statusMessage w" "isProcessing w5 = isProcessing w"
      using M(1) by (simp_all add: transported_def w4_def setJobs_fields world_defs w2 b_def)
    have unfold2: "r = (case (r2, w5) of
                   (Inl error, w5) \<Rightarrow> (None, processJob_catch job error w5)
                 | (Inr movesData, w5) \<Rightarrow>
                     (Some (statsData, movesData),
                      setJobs (\<lambda>js. job_completed job js) w5))"
      by (simp add: r_def unfold1 Inr f2 [symmetric] w4_def Let_def)
    show ?thesis
    proof (cases r2)
      case (Inl e)
      then have run: "r = (None, processJob_catch job e w5)" by (simp add: unfold2)
      show ?thesis
        using S(2) M(2) by (auto simp: run processJob_catch_fields w5)
    next
      case (Inr movesData)
      then have run: "r = (Some (statsData, movesData), setJobs (\<lambda>js. job_completed job js) w5)"
        by (simp add: unfold2)
      show ?thesis
        using S(2) M(2) by (auto simp: run setJobs_fields w5)
    qed
  qed
qed

lemma flags_kept_refl: "flags_kept js js"
  by (simp add: flags_kept_def list_all2_same)

lemma flags_kept_trans: "flags_kept a b \<Longrightarrow> flags_kept b c \<Longrightarrow> flags_kept a c"
  unfolding flags_kept_def by (auto simp: list_all2_conv_all_nth)

lemma transp_flags_kept: "transp flags_kept"
  by (rule transpI) (rule flags_kept_trans)

lemma flags_kept_mark:
  assumes "\<And>j. job_id (f j) = job_id j"
    and "\<And>j. statsFileDownloaded j \<Longrightarrow> statsFileDownloaded (f j)"
    and "\<And>j. movesFileDownloaded j \<Longrightarrow> movesFileDownloaded (f j)"
  shows "flags_kept js (mark i f js)"
  using assms by (simp add: flags_kept_def mark_def list_all2_map2 list_all2_same)

lemma flags_kept_updates:
  "flags_kept js (job_downloading job js)" "flags_kept js (job_stats_done job js)"
  "flags_kept js (job_completed job js)" "flags_kept js (job_failed job e js)"
  "flags_kept js (mark i (\<lambda>j. j\<lparr>status := s\<rparr>) js)"
  unfolding job_downloading_def job_stats_done_def job_completed_def job_failed_def
  by (rule flags_kept_mark; simp)+

lemma snapshots_append: "snapshots (xs @ ys) = snapshots xs @ snapshots ys"
  by (induction xs rule: snapshots.induct) auto

lemma snapshots_relay: "list_all (relay_event env target) evs \<Longrightarrow> snapshots evs = []"
  by (induction evs rule: snapshots.induct) (auto simp: relay_event_def)

lemma relay_events_snapshots: "relay_events env target evs \<Longrightarrow> snapshots evs = []"
  using snapshots_relay by (auto simp: relay_events_def)

lemma sorted_wrt_chain_append:
  assumes "transp R" "sorted_wrt R (x # xs)" "sorted_wrt R (last (x # xs) # ys)"
  shows "sorted_wrt R (x # xs @ ys)"
  using assms(2,3)
proof (induction xs arbitrary: x)
  case Nil
  then show ?case by simp
next
  case (Cons y xs)
  from Cons.prems have "sorted_wrt R (y # xs)" "sorted_wrt R (last (y # xs) # ys)" by simp_all
  from Cons.IH [OF this] have ih: "sorted_wrt R (y # xs @ ys)" .
  from Cons.prems have xy: "R x y" and xs: "\<forall>z\<in>set xs. R x z" by simp_all
  have "\<forall>z\<in>set ys. R x z"
  proof
    fix z assume "z \<in> set ys"
    with ih have "R y z" by simp
    with xy assms(1) show "R x z" by (meson transpD)
  qed
  with ih xy xs show ?case by auto
qed

lemma steps_refl: "steps w w"
  by (simp add: steps_def)

lemma steps_trans:
  assumes "steps w w'" "steps w' w''"
  shows "steps w w''"
proof -
  from assms(1) obtain n1 where n1: "events w' = events w @ n1"
    "sorted_wrt flags_kept (jobs w # snapshots n1)" "jobs w' = last (jobs w # snapshots n1)"
    unfolding steps_def by blast
  from assms(2) obtain n2 where n2: "events w'' = events w' @ n2"
    "sorted_wrt flags_kept (jobs w' # snapshots n2)" "jobs w'' = last (jobs w' # snapshots n2)"
    unfolding steps_def by blast
  have "sorted_wrt flags_kept (jobs w # snapshots n1 @ snapshots n2)"
    using transp_flags_kept n1(2) n2(2) unfolding n1(3)
    by (rule sorted_wrt_chain_append)
  moreover have "jobs w'' = last (jobs w # snapshots n1 @ snapshots n2)"
    using n2(3) n1(3) by (cases "snapshots n2 = []") auto
  ultimately show ?thesis
    unfolding steps_def
    by (intro exI [of _ "n1 @ n2"]) (simp add: n1(1) n2(1) snapshots_append)
qed

lemma steps_setJobs: "flags_kept (jobs w) (f (jobs w)) \<Longrightarrow> steps w (setJobs f w)"
  unfolding steps_def
  by (intro exI [of _ "[EvSetJobs (f (jobs w))]"]) (simp add: setJobs_fields)

lemma steps_transported:
  "transported w new w' \<Longrightarrow> snapshots new = [] \<Longrightarrow> steps w w'"
  unfolding steps_def
  by (intro exI [of _ new]) (simp add: transported_def)

lemma steps_plain:
  "steps w (delay ms w)" "steps w (setStatusMessage m w)" "steps w (log line w)"
  "steps w (setIsProcessing b w)"
  unfolding steps_def
  by (intro exI [of _ "[EvDelay ms]"], simp add: world_defs,
      intro exI [of _ "[EvStatus m]"], simp add: world_defs,
      intro exI [of _ "[]"], simp add: world_defs,
      intro exI [of _ "[]"], simp add: world_defs)

lemma steps_fetchMatchData: "steps w (snd (fetchMatchData env i kind w))"
  using fetchMatchData_frame [of w env i kind] steps_transported relay_events_snapshots
  by blast

lemma steps_processJob_catch: "steps w (processJob_catch job e w)"
proof -
  have "steps (log (message e) w) (processJob_catch job e w)"
    unfolding processJob_catch_def
    by (rule steps_setJobs) (use flags_kept_updates(4) [of _ job e] in \<open>simp add: job_update_defs\<close>)
  with steps_plain(3) show ?thesis by (rule steps_trans)
qed

lemma steps_processJob: "steps w (snd (processJob env job w))"
proof -
  define w1 where "w1 = setJobs (map (\<lambda>j. if job_id j = job_id job
                                  then j\<lparr>status := DOWNLOADING_JSON\<rparr> else j)) w"
  have s1: "steps w w1"
    unfolding w1_def
    by (rule steps_setJobs) (use flags_kept_updates(1) [of _ job] in \<open>simp add: job_update_defs\<close>)
  obtain r1 w2 where f1: "fetchMatchData env (job_id job) Stats w1 = (r1, w2)"
    by (cases "fetchMatchData env (job_id job) Stats w1")
  from steps_fetchMatchData [of w1 env "job_id job" Stats] f1 have s2: "steps w1 w2" by simp
  show ?thesis
  proof (cases r1)
    case (Inl e)
    then have "snd (processJob env job w) = processJob_catch job e w2"
      by (simp add: processJob_def w1_def [symmetric] f1)
    with s1 s2 steps_processJob_catch [of w2 job e] show ?thesis
      by (metis steps_trans)
  next
    case (Inr statsData)
    define w3 where "w3 = setJobs (map (\<lambda>j. if job_id j = job_id job
                                         then j\<lparr>statsFileDownloaded := True\<rparr> else j)) w2"
    define w4 where "w4 = delay 500 w3"
    have s3: "steps w2 w3"
      unfolding w3_def
      by (rule steps_setJobs) (use flags_kept_updates(2) [of _ job] in \<open>simp add: job_update_defs\<close>)
    have s4: "steps w3 w4" unfolding w4_def by (rule steps_plain)
    obtain r2 w5 where f2: "fetchMatchData env (job_id job) Moves w4 = (r2, w5)"
      by (cases "fetchMatchData env (job_id job) Moves w4")
    from steps_fetchMatchData [of w4 env "job_id job" Moves] f2 have s5: "steps w4 w5" by simp
    have upto: "steps w w5"
      using s1 s2 s3 s4 s5 by (metis steps_trans)
    show ?thesis
    proof (cases r2)
      case (Inl e)
      then have "snd (processJob env job w) = processJob_catch job e w5"
        by (simp add: processJob_def w1_def [symmetric] f1 Inr Let_def w3_def [symmetric]
            w4_def [symmetric] f2)
      with upto steps_processJob_catch [of w5 job e] show ?thesis
        by (metis steps_trans)
    next
      case r2: (Inr movesData)
      have "snd (processJob env job w)
              = setJobs (map (\<lambda>j. if job_id j = job_id job
                                   then j\<lparr>movesFileDownloaded := True, status := COMPLETED\<rparr>
                                   else j)) w5"
        by (simp add: processJob_def w1_def [symmetric] f1 Inr Let_def w3_def [symmetric]
            w4_def [symmetric] f2 r2)
      moreover have "steps w5 (setJobs (map (\<lambda>j. if job_id j = job_id job
                                   then j\<lparr>movesFileDownloaded := True, status := COMPLETED\<rparr>
                                   else j)) w5)"
        by (rule steps_setJobs) (use flags_kept_updates(3) [of _ job] in \<open>simp add: job_update_defs\<close>)
      ultimately show ?thesis using upto by (metis steps_trans)
    qed
  qed
qed

lemma steps_processQueue: "steps w (snd (processQueue env n i queue acc w))"
proof (induction queue arbitrary: i acc w)
  case Nil
  show ?case by (simp add: steps_refl)
next
  case (Cons job rest)
  define w1 where "w1 = setJobs (map (\<lambda>j. if job_id j = job_id job then j\<lparr>status := QUEUED\<rparr> else j)) w"
  define w2 where "w2 = setStatusMessage
                 (''Processing '' @ string_of_nat (i + 1) @ '' of '' @ string_of_nat n @ ''...'') w1"
  have s1: "steps w w1"
    unfolding w1_def
    by (rule steps_setJobs) (use flags_kept_updates(5) [of _ "job_id job" QUEUED] in \<open>simp add: mark_def\<close>)
  have s2: "steps w1 w2" unfolding w2_def by (rule steps_plain)
  obtain res w3 where p: "processJob env job w2 = (res, w3)"
    by (cases "processJob env job w2")
  from steps_processJob [of w2 env job] p have s3: "steps w2 w3" by simp
  have upto: "steps w w3" using s1 s2 s3 by (metis steps_trans)
  have s4: "steps w3 (delay 1500 w3)" by (rule steps_plain)
  have unfold: "processQueue env n i (job # rest) acc w =
      (case (res, w3) of
           (None, w3) \<Rightarrow> processQueue env n (i + 1) rest acc (delay 1500 w3)
         | (Some (stats, moves), w3) \<Rightarrow>
             (case generateFilenames stats (i + 1) of
                Inl error \<Rightarrow> (Inl error, w3)
              | Inr (statsName, movesName) \<Rightarrow>
                  processQueue env n (i + 1) rest
                    (acc @ [(statsName, stats), (''Moves/'' @ movesName, moves)])
                    (delay 1500 w3)))"
    by (simp only: processQueue.simps Let_def w1_def [symmetric] w2_def [symmetric] p)
  show ?case
  proof (cases res)
    case None
    with unfold have eq: "snd (processQueue env n i (job # rest) acc w)
        = snd (processQueue env n (i + 1) rest acc (delay 1500 w3))" by (simp only: prod.case option.case)
    have "steps (delay 1500 w3) (snd (processQueue env n (i + 1) rest acc (delay 1500 w3)))"
      by (rule Cons.IH)
    with upto s4 show ?thesis unfolding eq using steps_trans by blast
  next
    case (Some sm)
    obtain stats moves where sm: "sm = (stats, moves)" by (cases sm)
    show ?thesis
    proof (cases "generateFilenames stats (i + 1)")
      case (Inl e)
      with unfold Some sm have eq: "snd (processQueue env n i (job # rest) acc w) = w3"
        by (simp only: prod.case option.case sum.case snd_conv)
      show ?thesis unfolding eq by (rule upto)
    next
      case (Inr names)
      obtain statsName movesName where names: "names = (statsName, movesName)" by (cases names)
      with unfold Some sm Inr have eq: "snd (processQueue env n i (job # rest) acc w)
        = snd (processQueue env n (i + 1) rest
                 (acc @ [(statsName, stats), (''Moves/'' @ movesName, moves)]) (delay 1500 w3))"
        by (simp only: prod.case option.case sum.case)
      have "steps (delay 1500 w3) (snd (processQueue env n (i + 1) rest
                 (acc @ [(statsName, stats), (''Moves/'' @ movesName, moves)]) (delay 1500 w3)))"
        by (rule Cons.IH)
      with upto s4 show ?thesis unfolding eq using steps_trans by blast
    qed
  qed
qed

lemma steps_new_events:
  "steps w w' \<Longrightarrow> sorted_wrt flags_kept (jobs w # snapshots (new_events w w'))"
  unfolding steps_def by (auto simp: new_events_def)

lemma processQueue_failed:
  "processJob env job (queued n i job w) = (None, w3)
    \<Longrightarrow> processQueue env n i (job # rest) acc w
          = processQueue env n (i + 1) rest acc (delay 1500 w3)"
  by (simp only: processQueue.simps Let_def queued_def [symmetric] prod.case option.case)

lemma processQueue_named:
  "processJob env job (queued n i job w) = (Some (stats, moves), w3)
    \<Longrightarrow> generateFilenames stats (i + 1) = Inr (statsName, movesName)
    \<Longrightarrow> processQueue env n i (job # rest) acc w
          = processQueue env n (i + 1) rest
              (acc @ [(statsName, stats), (''Moves/'' @ movesName, moves)]) (delay 1500 w3)"
  by (simp only: processQueue.simps Let_def queued_def [symmetric] prod.case option.case sum.case)

lemma processQueue_unnamed:
  "processJob env job (queued n i job w) = (Some (stats, moves), w3)
    \<Longrightarrow> generateFilenames stats (i + 1) = Inl e
    \<Longrightarrow> processQueue env n i (job # rest) acc w = (Inl e, w3)"
  by (simp only: processQueue.simps Let_def queued_def [symmetric] prod.case option.case sum.case)

lemma queued_fields:
  "jobs (queued n i job w) = mark (job_id job) (\<lambda>j. j\<lparr>status := QUEUED\<rparr>) (jobs w)"
  "events (queued n i job w)
     = events w @ [EvSetJobs (mark (job_id job) (\<lambda>j. j\<lparr>status := QUEUED\<rparr>) (jobs w)),
                   EvStatus (''Processing '' @ string_of_nat (i + 1) @ '' of '' @ string_of_nat n @ ''...'')]"
  "isProcessing (queued n i job w) = isProcessing w"
  by (simp_all add: queued_def world_defs mark_def)

lemma mark_mark:
  "(\<And>j. job_id (g j) = job_id j) \<Longrightarrow> mark i f (mark i g js) = mark i (\<lambda>j. f (g j)) js"
  by (simp add: mark_def)






lemma processJob_block:
  "\<exists>B. events (snd (processJob env job w)) = events w @ B \<and> job_block env job B"
proof -
  let ?r = "processJob env job w"
  let ?a = "job_downloading job (jobs w)"
  let ?b = "job_stats_done job ?a"
  have ack: "\<forall>j\<in>set ?b. job_id j = job_id job \<longrightarrow> statsFileDownloaded j"
    by (auto simp: job_update_defs)
  from processJob_outcomes [of env job w]
  consider (stats) S e where "relay_events env (matchDataUrl (job_id job) Stats) S"
        "events (snd ?r) = events w @ EvSetJobs ?a # S @ [EvSetJobs (job_failed job e ?a)]"
    | (moves) S M c where "relay_events env (matchDataUrl (job_id job) Stats) S"
        "relay_events env (matchDataUrl (job_id job) Moves) M"
        "events (snd ?r) = events w @ EvSetJobs ?a # S @ [EvSetJobs ?b, EvDelay 500] @ M @ [EvSetJobs c]"
    by blast
  then show ?thesis
  proof cases
    case stats
    show ?thesis
      apply (rule exI [of _ "EvSetJobs ?a # S @ [EvSetJobs (job_failed job e ?a)]"])
      using stats unfolding job_block_def by blast
  next
    case moves
    show ?thesis
      apply (rule exI [of _ "EvSetJobs ?a # S @ [EvSetJobs ?b, EvDelay 500] @ M @ [EvSetJobs c]"])
      using moves ack unfolding job_block_def by blast
  qed
qed

lemma processQueue_trace:
  "\<exists>tr. events (snd (processQueue env n i queue acc w)) = events w @ tr
        \<and> queue_trace env n i queue (\<not> isl (fst (processQueue env n i queue acc w))) tr"
proof (induction queue arbitrary: i acc w)
  case Nil
  show ?case by (simp add: queue_trace.finished)
next
  case (Cons job rest)
  let ?q = "mark (job_id job) (\<lambda>j. j\<lparr>status := QUEUED\<rparr>) (jobs w)"
  let ?m = "''Processing '' @ string_of_nat (Suc i) @ '' of '' @ string_of_nat n @ ''...''"
  define res where "res = fst (processJob env job (queued n i job w))"
  define w3 where "w3 = snd (processJob env job (queued n i job w))"
  have p: "processJob env job (queued n i job w) = (res, w3)"
    by (simp add: res_def w3_def)
  from processJob_block [of env job "queued n i job w"] obtain B where
    B: "events w3 = events w @ EvSetJobs ?q # EvStatus ?m # B" "job_block env job B"
    unfolding w3_def by (auto simp: queued_fields)
  have rest_run: "\<exists>tr. events (snd (processQueue env n i (job # rest) acc w)) = events w @ tr
        \<and> queue_trace env n i (job # rest) (\<not> isl (fst (processQueue env n i (job # rest) acc w))) tr"
    if step: "processQueue env n i (job # rest) acc w
                = processQueue env n (i + 1) rest acc' (delay 1500 w3)" for acc'
  proof -
    from Cons.IH [of "i + 1" acc' "delay 1500 w3"] obtain R where
      R: "events (snd (processQueue env n (i + 1) rest acc' (delay 1500 w3)))
            = events (delay 1500 w3) @ R"
         "queue_trace env n (i + 1) rest
            (\<not> isl (fst (processQueue env n (i + 1) rest acc' (delay 1500 w3)))) R"
      by blast
    from queue_trace.next_job [OF B(2), of n i rest _ R ?q] R(2)
    have "queue_trace env n i (job # rest)
            (\<not> isl (fst (processQueue env n (i + 1) rest acc' (delay 1500 w3))))
            (EvSetJobs ?q # EvStatus ?m # B @ EvDelay 1500 # R)"
      by simp
    moreover have d: "events (delay 1500 w3) = events w3 @ [EvDelay 1500]"
      by (simp add: world_defs)
    have "events (snd (processQueue env n (i + 1) rest acc' (delay 1500 w3)))
        = events w @ EvSetJobs ?q # EvStatus ?m # B @ EvDelay 1500 # R"
      unfolding R(1) d B(1) by simp
    ultimately show ?thesis unfolding step by blast
  qed
  show ?case
  proof (cases res)
    case None
    from processQueue_failed [OF p [unfolded None], of rest acc]
    show ?thesis by (rule rest_run)
  next
    case (Some sm)
    obtain stats moves where sm: "sm = (stats, moves)" by (cases sm)
    show ?thesis
    proof (cases "generateFilenames stats (i + 1)")
      case (Inl e)
      from processQueue_unnamed [OF p [unfolded Some sm] Inl, of rest acc]
      have run: "processQueue env n i (job # rest) acc w = (Inl e, w3)" .
      from queue_trace.aborted [OF B(2), of n i rest ?q]
      show ?thesis unfolding run by (simp add: B(1))
    next
      case (Inr names)
      obtain statsName movesName where names: "names = (statsName, movesName)" by (cases names)
      from processQueue_named [OF p [unfolded Some sm] Inr [unfolded names], of rest acc]
      show ?thesis by (rule rest_run)
    qed
  qed
qed

lemma extractMatchId_not_unknown: "extractMatchId url \<noteq> Some ''unknown''"
proof
  assume "extractMatchId url = Some ''unknown''"
  then have "hex24 ''unknown''"
    by (simp add: extractMatchId_last_chunk split: if_splits)
  then show False by (simp add: hex24_def)
qed

lemma initialJob_valid: "job_id (initialJob url) \<noteq> ''unknown'' \<longleftrightarrow> extractMatchId url \<noteq> None"
  using extractMatchId_not_unknown [of url]
  by (cases "extractMatchId url") (simp_all add: initialJob_def)

lemma job_url_initialJob: "job_url (initialJob url) = url"
  by (simp add: initialJob_def Let_def)

lemma initialJobs_order:
  "map job_url (filter (\<lambda>j. job_id j \<noteq> ''unknown'') (map initialJob links))
     = filter (\<lambda>u. extractMatchId u \<noteq> None) links"
  by (induction links) (simp_all add: initialJob_valid job_url_initialJob)

lemmas run_defs = handleBulkStart_def bulk_catch_def bulk_finally_def fetchResultsPage_def
  extractMatchLinks_def new_Set_def set_add_def normalizeHref_def BASE_URL_def
  getZipName_def endsWith_def toLowerCase_def downloadAsZip_def
  processJob_def processJob_catch_def fetchMatchData_def fetchTextWithFallback_def
  urlWithCacheBuster_def matchDataUrl_def API_BASE_def PROXY_PROVIDERS_def attempt_def
  decodeResponse_def bind_e_def trim_def is_ws_def initialJob_def extractMatchId_def
  generateFilenames_def hex24_def is_hex_digit_def optprop_def startsWith_def Let_def
  world_defs fixture_defs wrapped_ok_def

lemmas run_congs = let_weak_cong sum.case_cong_weak prod.case_cong_weak option.case_cong_weak
  list.case_cong_weak fetch_result.case_cong_weak jsvalue.case_cong_weak event.case_cong_weak

lemma decimal_texts:
  "string_of_nat 0 = ''0''" "string_of_nat 1 = ''1''" "string_of_nat 2 = ''2''"
  "string_of_nat 3 = ''3''" "string_of_nat (Suc 0) = ''1''" "string_of_nat (Suc (Suc 0)) = ''2''"
  "string_of_nat (Suc (Suc (Suc 0))) = ''3''" "string_of_int 5 = ''5''"
  "string_of_nat 502 = ''502''"
  by code_simp+

lemma isProcessing_handleBulkStart:
  "isProcessing (handleBulkStart env inputUrl customFilename w) = False"
  by (simp add: handleBulkStart_def bulk_finally_def setIsProcessing_def Let_def
      split: prod.splits sum.splits)

lemma ids_distinct:
  "id_a \<noteq> id_b" "id_a \<noteq> id_c" "id_b \<noteq> id_a" "id_b \<noteq> id_c" "id_c \<noteq> id_a" "id_c \<noteq> id_b"
  by (simp_all add: id_a_def id_b_def id_c_def)

lemma queue3_jobs: "queue3 = [fresh_job id_a, fresh_job id_b, fresh_job id_c]"
  by (simp add: queue3_def initialJob_def fresh_job_def detail_url_def extractMatchId_def
      hex24_def is_hex_digit_def id_a_def id_b_def id_c_def Let_def)

lemmas queue_defs = processJob_def processJob_catch_def fetchMatchData_def fetchTextWithFallback_def
  PROXY_PROVIDERS_def attempt_def decodeResponse_def bind_e_def trim_def is_ws_def
  generateFilenames_def optprop_def Let_def world_defs fixture_defs wrapped_ok_def

lemma run3:
  "queue_report (processQueue env_job2_fails 3 0 queue3 [] (world0\<lparr>jobs := queue3\<rparr>))
   = (Inr [''J5_P1_0_0.json'', ''Moves/J5_P1_Moves.json'', ''J5_P3_0_0.json'', ''Moves/J5_P3_Moves.json''],
      [COMPLETED, ERROR, COMPLETED],
      [None, Some ''Proxy corsproxy.io returned status 502'', None],
      [[False, False, False], [False, False, False], [True, False, False], [True, False, False],
       [True, False, False], [True, False, False], [True, False, False], [True, False, False],
       [True, False, False], [True, False, True], [True, False, True]],
      [500, 1500, 1000, 1000, 1000, 1500, 500, 1500])"
  unfolding queue3_jobs
  by (simp add: queue_report_def delays_def env_job2_fails_def fresh_job_def ids_distinct
      queue_defs decimal_texts cong: run_congs)


lemma run3_result:
  "\<exists>files. fst (processQueue env_job2_fails 3 0 queue3 [] (world0\<lparr>jobs := queue3\<rparr>)) = Inr files
            \<and> length files = 4"
  using run3 by (auto simp: queue_report_def split: sum.splits dest: arg_cong [where f = length])






lemma attempt_zip: "attempt (env\<lparr>zip_generate := z\<rparr>) p u w = attempt env p u w"
  by (simp add: attempt_def)

lemma providerLoop_zip:
  "providerLoop (env\<lparr>zip_generate := z\<rparr>) u ps lastError w = providerLoop env u ps lastError w"
  by (induction ps arbitrary: lastError w) (simp_all add: attempt_zip split: prod.splits sum.splits)

lemma PROXY_PROVIDERS_zip: "PROXY_PROVIDERS (env\<lparr>zip_generate := z\<rparr>) = PROXY_PROVIDERS env"
  by (simp add: PROXY_PROVIDERS_def)

lemma fetchTextWithFallback_zip:
  "fetchTextWithFallback (env\<lparr>zip_generate := z\<rparr>) ps t w = fetchTextWithFallback env ps t w"
  by (simp add: fetchTextWithFallback_def providerLoop_zip)

lemma fetchResultsPage_zip:
  "fetchResultsPage (env\<lparr>zip_generate := z\<rparr>) u w = fetchResultsPage env u w"
  by (simp add: fetchResultsPage_def fetchTextWithFallback_zip PROXY_PROVIDERS_zip
      split: prod.splits sum.splits)

lemma fetchMatchData_zip:
  "fetchMatchData (env\<lparr>zip_generate := z\<rparr>) i kind w = fetchMatchData env i kind w"
  by (simp add: fetchMatchData_def fetchTextWithFallback_zip PROXY_PROVIDERS_zip Let_def
      split: prod.splits sum.splits)

lemma processJob_zip: "processJob (env\<lparr>zip_generate := z\<rparr>) job w = processJob env job w"
  by (simp add: processJob_def fetchMatchData_zip Let_def split: prod.splits sum.splits)

lemma processQueue_zip:
  "processQueue (env\<lparr>zip_generate := z\<rparr>) n i queue acc w = processQueue env n i queue acc w"
  by (induction queue arbitrary: i acc w)
     (simp_all add: processJob_zip Let_def split: prod.splits option.splits sum.splits)

lemma statusMessage_downloadAsZip:
  "statusMessage (snd (downloadAsZip env files zipFilename w)) = statusMessage w"
  by (simp add: downloadAsZip_def world_defs split: sum.splits)

lemma statusMessage_handleBulkStart_zip:
  "statusMessage (handleBulkStart (env\<lparr>zip_generate := z\<rparr>) inputUrl customFilename w)
     = statusMessage (handleBulkStart env inputUrl customFilename w)"
  by (simp add: handleBulkStart_def fetchResultsPage_zip processQueue_zip bulk_finally_def
      setIsProcessing_def setStatusMessage_def emit_def Let_def
      split: prod.splits sum.splits)

text \<open>
  The queue loop is left by an exception when the names of a retrieved payload cannot be
  derived: with two jobs and the parser above, the first job is completed, the derivation
  of its names throws, the second job is never started and no document is collected.
\<close>

lemma queue_left_when_names_throw:
  "queue_report (processQueue env_names_throw 2 0 [fresh_job id_a, fresh_job id_b] []
                   (world0\<lparr>jobs := [fresh_job id_a, fresh_job id_b]\<rparr>))
     = (Inl (TypeError ''Cannot convert object to primitive value''),
        [COMPLETED, IDLE], [None, None],
        [[False, False], [False, False], [True, False], [True, False]],
        [500])"
  by (simp add: queue_report_def delays_def env_names_throw_def fresh_job_def ids_distinct
      queue_defs decimal_texts cong: run_congs)
section \<open>Properties of the job queue and the archive\<close>

text \<open>
  Claim C2. The claim as stated: when the compression step fails, \<open>downloadAsZip\<close> fails,
  the failure propagates to the run handler, and the final status message reflects it. In
  the run below the link list has one match, both its documents are retrieved and the
  compression step fails: \<open>downloadAsZip\<close> catches the failure and writes it to the
  console, nothing is downloaded, and the final status message is the one of a successful
  download.
\<close>

theorem archive_failure_status_counterexample:
  "zip_generate env_zip_fails
       [(''J5_P1_0_0.json'', JObj [(''jornada'', JNum 5)]),
        (''Moves/J5_P1_Moves.json'', JObj [(''jornada'', JNum 5)])]
     = Inl (Error ''compression failed'')
   \<and> final_report (handleBulkStart env_zip_fails
        ''https://www.basquetcatala.cat/competicions/resultats/21639/0'' [] world0)
     = (''All jobs finished. ZIP downloaded.'', False, [''ZIP Generation failed''], [])"
  by (simp add: final_report_def env_zip_fails_def run_defs decimal_texts cong: run_congs)

text \<open>
  Claim C2, amended: when the compression step fails, \<open>downloadAsZip\<close> does not fail:
  it catches the failure, reports it on the console and returns \<open>false\<close>, and nothing is
  downloaded. It never changes the status message, and the run handler does not look at its
  result: the final status message of a bulk run is the same whatever the compression step
  does, so that no archive-generation failure reaches the run handler or its message. The
  run is left marked not-in-progress, as after every bulk run.
\<close>

theorem archive_failure_caught:
  "(zip_generate env files = Inl e
      \<longrightarrow> downloadAsZip env files zipFilename w = (False, log ''ZIP Generation failed'' w))
   \<and> statusMessage (snd (downloadAsZip env files zipFilename w)) = statusMessage w
   \<and> statusMessage (handleBulkStart (env\<lparr>zip_generate := z\<rparr>) inputUrl customFilename w)
       = statusMessage (handleBulkStart env inputUrl customFilename w)
   \<and> isProcessing (handleBulkStart env inputUrl customFilename w) = False"
  using statusMessage_downloadAsZip [of env files zipFilename w]
  by (simp add: downloadAsZip_def isProcessing_handleBulkStart statusMessage_handleBulkStart_zip)

theorem archive_failure_caught_witness:
  "downloadAsZip env_zip_fails [(''J5_P1_0_0.json'', JNull)] ''export.zip'' world0
     = (False, log ''ZIP Generation failed'' world0)
   \<and> isProcessing (handleBulkStart env_zip_fails
        ''https://www.basquetcatala.cat/competicions/resultats/21639/0'' [] world0) = False"
proof -
  have "zip_generate env_zip_fails [(''J5_P1_0_0.json'', JNull)] = Inl (Error ''compression failed'')"
    by (simp add: env_zip_fails_def)
  with archive_failure_caught
         [where env = env_zip_fails and files = "[(''J5_P1_0_0.json'', JNull)]"
            and e = "Error ''compression failed''" and zipFilename = "''export.zip''"
            and w = world0
            and inputUrl = "''https://www.basquetcatala.cat/competicions/resultats/21639/0''"
            and customFilename = "[]"]
  show ?thesis by blast
qed




text \<open>
  Claim C5. The trace of the queue loop is, job after job in the order of the queue, the
  block of each job followed by the delay of 1500 ms before anything of the next job: in a
  block the statistics transport is finished and acknowledged before the delay of 500 ms,
  and the moves transport starts after it. The queue is the list of the links that carry an
  identifier, in the order of the link list. (Delays are the durations asked of the timer.)
\<close>

theorem bulk_jobs_sequential:
  "queue_trace env n i queue (\<not> isl (fst (processQueue env n i queue acc w)))
     (new_events w (snd (processQueue env n i queue acc w)))
   \<and> map job_url (filter (\<lambda>j. job_id j \<noteq> ''unknown'') (map initialJob links))
       = filter (\<lambda>u. extractMatchId u \<noteq> None) links"
proof -
  from processQueue_trace [of env n i queue acc w] obtain tr where
    "events (snd (processQueue env n i queue acc w)) = events w @ tr"
    "queue_trace env n i queue (\<not> isl (fst (processQueue env n i queue acc w))) tr"
    by blast
  then have "queue_trace env n i queue (\<not> isl (fst (processQueue env n i queue acc w)))
     (new_events w (snd (processQueue env n i queue acc w)))"
    by (simp add: new_events_def)
  with initialJobs_order show ?thesis by blast
qed

theorem bulk_jobs_sequential_witness:
  "queue_trace env_job2_fails 3 0 queue3 True
     (new_events (world0\<lparr>jobs := queue3\<rparr>)
        (snd (processQueue env_job2_fails 3 0 queue3 [] (world0\<lparr>jobs := queue3\<rparr>))))
   \<and> delays (events (snd (processQueue env_job2_fails 3 0 queue3 [] (world0\<lparr>jobs := queue3\<rparr>))))
     = [500, 1500, 1000, 1000, 1000, 1500, 500, 1500]
   \<and> map job_url queue3 = [detail_url id_a, detail_url id_b, detail_url id_c]"
proof -
  let ?w = "world0\<lparr>jobs := queue3\<rparr>"
  from run3_result have "\<not> isl (fst (processQueue env_job2_fails 3 0 queue3 [] ?w))"
    by auto
  with bulk_jobs_sequential [of env_job2_fails 3 0 queue3 "[]" ?w "[]"]
  have "queue_trace env_job2_fails 3 0 queue3 True
     (new_events ?w (snd (processQueue env_job2_fails 3 0 queue3 [] ?w)))"
    by simp
  moreover from run3 have "delays (events (snd (processQueue env_job2_fails 3 0 queue3 [] ?w)))
     = [500, 1500, 1000, 1000, 1000, 1500, 500, 1500]"
    by (simp add: queue_report_def)
  moreover have "map job_url queue3 = [detail_url id_a, detail_url id_b, detail_url id_c]"
    by (simp add: queue3_jobs fresh_job_def)
  ultimately show ?thesis by blast
qed

text \<open>
  Claim C9. In the sequence of job lists shown during the processing of a job, and during
  the whole queue loop, every list keeps the flags of all earlier ones: a flag that is set
  is never cleared, whatever the outcome of the fetches.
\<close>

theorem flags_monotonic:
  "sorted_wrt flags_kept (jobs w # snapshots (new_events w (snd (processJob env job w))))
   \<and> sorted_wrt flags_kept
        (jobs w # snapshots (new_events w (snd (processQueue env n i queue acc w))))"
  using steps_processJob steps_processQueue steps_new_events by blast

theorem flags_monotonic_witness:
  "sorted_wrt flags_kept
     (jobs (world0\<lparr>jobs := queue3\<rparr>)
        # snapshots (new_events (world0\<lparr>jobs := queue3\<rparr>)
            (snd (processQueue env_job2_fails 3 0 queue3 [] (world0\<lparr>jobs := queue3\<rparr>)))))
   \<and> map (map statsFileDownloaded)
         (snapshots (events (snd (processQueue env_job2_fails 3 0 queue3 [] (world0\<lparr>jobs := queue3\<rparr>)))))
     = [[False, False, False], [False, False, False], [True, False, False], [True, False, False],
        [True, False, False], [True, False, False], [True, False, False], [True, False, False],
        [True, False, False], [True, False, True], [True, False, True]]"
proof -
  let ?w = "world0\<lparr>jobs := queue3\<rparr>"
  from flags_monotonic [of ?w env_job2_fails "hd queue3" 3 0 queue3 "[]"]
  have "sorted_wrt flags_kept
     (jobs ?w # snapshots (new_events ?w (snd (processQueue env_job2_fails 3 0 queue3 [] ?w))))"
    by blast
  moreover from run3 have "map (map statsFileDownloaded)
         (snapshots (events (snd (processQueue env_job2_fails 3 0 queue3 [] ?w))))
     = [[False, False, False], [False, False, False], [True, False, False], [True, False, False],
        [True, False, False], [True, False, False], [True, False, False], [True, False, False],
        [True, False, False], [True, False, True], [True, False, True]]"
    by (simp add: queue_report_def)
  ultimately show ?thesis by blast
qed

end
